theory Spec2Isabelle
  imports Main "HOL-Library.Sublist"
begin

section \<open>Data model\<close>

text \<open>
  The records carry the fields that the modelled functions of the view layer read.
  Status and priority are the strings the JavaScript compares (\<open>'Not Started'\<close>,
  \<open>'In Progress'\<close>, \<open>'Completed'\<close>, \<open>'MUST'\<close>, \<open>'Optional'\<close>); numbers are integers.
  The field \<open>id\<close> of a course is written \<open>id_course\<close>.
\<close>

record course =
  id_course :: string
  title :: string
  phase :: int
  phase_title :: string
  status :: string
  progress :: int
  priority :: string

text \<open>The three filter states of \<open>App\<close>: \<open>selectedPhase\<close> is \<open>null\<close> or a number,
  the other two are strings with \<open>'all'\<close> as initial value.\<close>

record filters =
  selectedPhase :: "int option"
  statusFilter :: string
  priorityFilter :: string

section \<open>Filtered view\<close>

text \<open>
  JavaScript truthiness of \<open>selectedPhase\<close>: \<open>null\<close> and \<open>0\<close> are falsy, every other
  integer is truthy.
\<close>

definition truthy_phase :: "int option \<Rightarrow> bool" where
  "truthy_phase sp = (case sp of None \<Rightarrow> False | Some n \<Rightarrow> n \<noteq> 0)"

text \<open>The callback of \<open>courses.filter\<close> in \<open>getFilteredCourses\<close>, with its three early
  returns in the order of the source.\<close>

definition flat_pred :: "filters \<Rightarrow> course \<Rightarrow> bool" where
  "flat_pred f c =
     (if truthy_phase (selectedPhase f) \<and> Some (phase c) \<noteq> selectedPhase f then False
      else if statusFilter f \<noteq> ''all'' \<and> status c \<noteq> statusFilter f then False
      else if priorityFilter f \<noteq> ''all'' \<and> priority c \<noteq> priorityFilter f then False
      else True)"

definition getFilteredCourses :: "filters \<Rightarrow> course list \<Rightarrow> course list" where
  "getFilteredCourses f courses = filter (flat_pred f) courses"

text \<open>The contract of the filtered view in the words of the specification: a criterion
  is active unless it is "all" (\<open>null\<close> for the phase), and a course is kept when it
  satisfies every active criterion.\<close>

definition satisfies_criteria :: "filters \<Rightarrow> course \<Rightarrow> bool" where
  "satisfies_criteria f c =
     ((case selectedPhase f of None \<Rightarrow> True | Some p \<Rightarrow> phase c = p) \<and>
      (statusFilter f = ''all'' \<or> status c = statusFilter f) \<and>
      (priorityFilter f = ''all'' \<or> priority c = priorityFilter f))"

section \<open>Requests and effects\<close>

text \<open>One row of the daily-tracker form, and the body of \<open>POST /api/logs\<close>.\<close>

record log_entry =
  course_id :: string
  course_title :: string
  time_spent :: int
  progress_notes :: string

record log_request =
  date_body :: string
  courses_body :: "log_entry list"
  notes_body :: string
  mood_body :: "int option"

text \<open>The body of \<open>POST /api/planned\<close>.\<close>

record planned_request =
  course_id_body :: string
  planned_date_body :: "string option"
  estimated_time_body :: int
  notes_planned_body :: string

text \<open>What a handler does to the outside world, in the order it does it: requests to
  the backend, dialogs (\<open>alert\<close> and \<open>window.confirm\<close> block until dismissed),
  messages on the developer console, and calls of the callbacks a component received
  from \<open>App\<close>.\<close>

datatype effect =
    Http_patch_progress string int string
  | Http_post_log log_request
  | Http_post_planned planned_request
  | Http_delete_planned string
  | Http_get string
  | Console_error string
  | Alert string
  | Confirm string
  | Call_onLogAdded
  | Call_onSessionAdded
  | Call_onSessionDeleted

section \<open>Course progress mutation\<close>

record analytics_summary =
  total_courses :: int
  completed_courses :: int
  current_streak_field :: int

text \<open>The state of \<open>App\<close> that the progress mutation touches: the two snapshots it
  re-fetches and the course whose detail modal is open (\<open>null\<close> when closed).\<close>

record app_state =
  courses :: "course list"
  analytics :: "analytics_summary option"
  showCourseDetail :: "course option"

text \<open>The answers of the backend to the requests of one handler run: whether the
  mutation succeeds, and the data of the two re-fetches (\<open>None\<close> when the request fails).\<close>

record backend_answers =
  mutation_ok :: bool
  courses_response :: "course list option"
  analytics_response :: "analytics_summary option"

definition fetchCourses :: "app_state \<Rightarrow> course list option \<Rightarrow> app_state \<times> effect list" where
  "fetchCourses st resp =
     (case resp of
        Some data \<Rightarrow> (st\<lparr>courses := data\<rparr>, [Http_get ''/courses''])
      | None \<Rightarrow> (st, [Http_get ''/courses'', Console_error ''Error fetching courses:'']))"

definition fetchAnalytics ::
  "app_state \<Rightarrow> analytics_summary option \<Rightarrow> app_state \<times> effect list" where
  "fetchAnalytics st resp =
     (case resp of
        Some data \<Rightarrow> (st\<lparr>analytics := Some data\<rparr>, [Http_get ''/analytics/summary''])
      | None \<Rightarrow> (st, [Http_get ''/analytics/summary'',
                      Console_error ''Error fetching analytics:'']))"

definition updateCourseProgress ::
  "backend_answers \<Rightarrow> app_state \<Rightarrow> string \<Rightarrow> int \<Rightarrow> string \<Rightarrow> app_state \<times> effect list" where
  "updateCourseProgress net st courseId prog stat =
     (if mutation_ok net then
        (let (st1, e1) = fetchCourses st (courses_response net);
             (st2, e2) = fetchAnalytics st1 (analytics_response net)
         in (st2, Http_patch_progress courseId prog stat # e1 @ e2))
      else (st, [Http_patch_progress courseId prog stat,
                 Console_error ''Error updating course progress:'']))"

definition handleStartCourse ::
  "backend_answers \<Rightarrow> app_state \<Rightarrow> course \<Rightarrow> app_state \<times> effect list" where
  "handleStartCourse net st c =
     (if status c = ''Not Started''
      then updateCourseProgress net st (id_course c) 5 ''In Progress''
      else (st, []))"

definition handleCompleteCourse ::
  "backend_answers \<Rightarrow> app_state \<Rightarrow> course \<Rightarrow> app_state \<times> effect list" where
  "handleCompleteCourse net st c = updateCourseProgress net st (id_course c) 100 ''Completed''"

text \<open>\<open>CourseDetailModal.handleUpdate\<close>: the arguments handed to \<open>onUpdate\<close>; the modal
  holds the slider value \<open>progress\<close> and never reads the status of its course.\<close>

definition handleUpdate :: "course \<Rightarrow> int \<Rightarrow> int \<times> string" where
  "handleUpdate c prog =
     (prog, if prog \<ge> 100 then ''Completed''
            else if prog > 0 then ''In Progress'' else ''Not Started'')"

text \<open>The \<open>onUpdate\<close> callback that \<open>App\<close> hands to the modal: it awaits the progress
  update for the course on display and then closes the modal. \<open>manual_update\<close> is a
  click on the update button with the slider at \<open>prog\<close>; the modal is only rendered
  while \<open>showCourseDetail\<close> is set.\<close>

definition onUpdate ::
  "backend_answers \<Rightarrow> app_state \<Rightarrow> course \<Rightarrow> int \<times> string \<Rightarrow> app_state \<times> effect list" where
  "onUpdate net st shown args =
     (let (st1, es) = updateCourseProgress net st (id_course shown) (fst args) (snd args)
      in (st1\<lparr>showCourseDetail := None\<rparr>, es))"

definition manual_update ::
  "backend_answers \<Rightarrow> app_state \<Rightarrow> int \<Rightarrow> app_state \<times> effect list" where
  "manual_update net st prog =
     (case showCourseDetail st of
        None \<Rightarrow> (st, [])
      | Some c \<Rightarrow> onUpdate net st c (handleUpdate c prog))"

text \<open>The requests of a handler run that go to the backend, and its blocking
  notifications.\<close>

fun is_request :: "effect \<Rightarrow> bool" where
  "is_request (Http_patch_progress _ _ _) = True"
| "is_request (Http_post_log _) = True"
| "is_request (Http_post_planned _) = True"
| "is_request (Http_delete_planned _) = True"
| "is_request (Http_get _) = True"
| "is_request _ = False"

fun is_mutation :: "effect \<Rightarrow> bool" where
  "is_mutation (Http_patch_progress _ _ _) = True"
| "is_mutation (Http_post_log _) = True"
| "is_mutation (Http_post_planned _) = True"
| "is_mutation (Http_delete_planned _) = True"
| "is_mutation _ = False"

fun is_alert :: "effect \<Rightarrow> bool" where
  "is_alert (Alert _) = True"
| "is_alert _ = False"

section \<open>Phase grouping\<close>

text \<open>The value stored under a phase in the object that \<open>getCoursesByPhase\<close> builds;
  its fields \<open>title\<close> and \<open>courses\<close> are written \<open>title_pg\<close> and \<open>courses_pg\<close>.\<close>

record phase_group =
  title_pg :: string
  courses_pg :: "course list"

text \<open>One round of the \<open>forEach\<close>: create the group when the phase has none yet, then
  push the course onto the group of its phase.\<close>

definition add_course :: "(int \<rightharpoonup> phase_group) \<Rightarrow> course \<Rightarrow> (int \<rightharpoonup> phase_group)" where
  "add_course phases c =
     (let g = (case phases (phase c) of
                 None \<Rightarrow> \<lparr>title_pg = phase_title c, courses_pg = []\<rparr>
               | Some g0 \<Rightarrow> g0)
      in phases(phase c \<mapsto> g\<lparr>courses_pg := courses_pg g @ [c]\<rparr>))"

definition getCoursesByPhase :: "course list \<Rightarrow> (int \<rightharpoonup> phase_group)" where
  "getCoursesByPhase cs = foldl add_course Map.empty cs"

text \<open>The filter that \<open>CoursesView\<close> applies to the courses of each phase group: the
  same three checks as \<open>getFilteredCourses\<close>, written a second time, status first.\<close>

definition group_pred :: "filters \<Rightarrow> course \<Rightarrow> bool" where
  "group_pred f c =
     (if statusFilter f \<noteq> ''all'' \<and> status c \<noteq> statusFilter f then False
      else if priorityFilter f \<noteq> ''all'' \<and> priority c \<noteq> priorityFilter f then False
      else if truthy_phase (selectedPhase f) \<and> Some (phase c) \<noteq> selectedPhase f then False
      else True)"

definition phaseCourses :: "filters \<Rightarrow> phase_group \<Rightarrow> course list" where
  "phaseCourses f data = filter (group_pred f) (courses_pg data)"

section \<open>Daily log submission\<close>

text \<open>The form state of \<open>DailyTracker\<close>; its \<open>notes\<close> is written \<open>notes_field\<close>.\<close>

record tracker_state =
  selectedDate :: string
  selectedCourses :: "log_entry list"
  notes_field :: string
  mood :: "int option"

text \<open>\<open>c.course_id && c.time_spent > 0\<close>: a string is truthy when it is not empty.\<close>

definition valid_entry :: "log_entry \<Rightarrow> bool" where
  "valid_entry c = (course_id c \<noteq> [] \<and> time_spent c > 0)"

text \<open>\<open>DailyTracker.handleSubmit\<close>; \<open>post_ok\<close> tells whether the backend accepts the
  request.\<close>

definition handleSubmit :: "bool \<Rightarrow> tracker_state \<Rightarrow> tracker_state \<times> effect list" where
  "handleSubmit post_ok ts =
     (if length (selectedCourses ts) = 0 then (ts, [Alert ''ADD AT LEAST ONE COURSE''])
      else
        (let validCourses = filter valid_entry (selectedCourses ts) in
         if length validCourses = 0 then (ts, [Alert ''SELECT COURSES AND ADD TIME''])
         else
           (let body = \<lparr>date_body = selectedDate ts, courses_body = validCourses,
                         notes_body = notes_field ts, mood_body = mood ts\<rparr>
            in if post_ok
               then (ts\<lparr>selectedCourses := [], notes_field := [], mood := None\<rparr>,
                     [Http_post_log body, Call_onLogAdded, Alert ''LOG SAVED!''])
               else (ts, [Http_post_log body, Console_error ''Error saving log:'',
                          Alert ''ERROR SAVING LOG'']))))"

section \<open>Planned sessions\<close>

text \<open>The form state of \<open>CalendarView\<close>; the date of the clicked cell is \<open>null\<close> until a
  cell has been clicked and is written \<open>selectedDate_cal\<close>.\<close>

record calendar_state =
  showAddModal :: bool
  selectedDate_cal :: "string option"
  selectedCourse :: string
  estimatedTime :: int
  planNotes :: string

definition falsy_string :: "string option \<Rightarrow> bool" where
  "falsy_string s = (case s of None \<Rightarrow> True | Some t \<Rightarrow> t = [])"

definition handleAddSession :: "bool \<Rightarrow> calendar_state \<Rightarrow> calendar_state \<times> effect list" where
  "handleAddSession post_ok cs =
     (if selectedCourse cs = [] \<or> falsy_string (selectedDate_cal cs)
      then (cs, [Alert ''SELECT COURSE AND DATE''])
      else
        (let body = \<lparr>course_id_body = selectedCourse cs,
                      planned_date_body = selectedDate_cal cs,
                      estimated_time_body = estimatedTime cs,
                      notes_planned_body = planNotes cs\<rparr>
         in if post_ok
            then (cs\<lparr>showAddModal := False, selectedCourse := [], estimatedTime := 60,
                       planNotes := []\<rparr>,
                  [Http_post_planned body, Call_onSessionAdded, Alert ''SESSION PLANNED!''])
            else (cs, [Http_post_planned body, Console_error ''Error adding session:'',
                       Alert ''ERROR PLANNING SESSION''])))"

text \<open>\<open>handleDeleteSession\<close>; \<open>confirmed\<close> is the answer to the \<open>window.confirm\<close>
  dialog.\<close>

definition handleDeleteSession ::
  "bool \<Rightarrow> bool \<Rightarrow> calendar_state \<Rightarrow> string \<Rightarrow> calendar_state \<times> effect list" where
  "handleDeleteSession confirmed delete_ok cs sessionId =
     (if \<not> confirmed then (cs, [Confirm ''DELETE THIS PLANNED SESSION?''])
      else if delete_ok
      then (cs, [Confirm ''DELETE THIS PLANNED SESSION?'', Http_delete_planned sessionId,
                 Call_onSessionDeleted])
      else (cs, [Confirm ''DELETE THIS PLANNED SESSION?'', Http_delete_planned sessionId,
                 Console_error ''Error deleting session:'']))"

section \<open>Courses offered for selection\<close>

text \<open>The \<open>courses\<close> prop of \<open>DailyTracker\<close> and the options of the plan-session
  dropdown of \<open>CalendarView\<close> are both \<open>courses.filter(c => c.status !== 'Completed')\<close>;
  the log form lists its prop unchanged.\<close>

definition tracker_courses :: "course list \<Rightarrow> course list" where
  "tracker_courses cs = filter (\<lambda>c. status c \<noteq> ''Completed'') cs"

definition tracker_options :: "course list \<Rightarrow> (string \<times> string) list" where
  "tracker_options cs = map (\<lambda>c. (id_course c, title c)) (tracker_courses cs)"

definition calendar_options :: "course list \<Rightarrow> (string \<times> string) list" where
  "calendar_options cs =
     map (\<lambda>c. (id_course c, title c)) (filter (\<lambda>c. status c \<noteq> ''Completed'') cs)"

section \<open>Calendar month grid\<close>

subsection \<open>The date arithmetic of the JavaScript \<open>Date\<close> object\<close>

text \<open>
  \<open>CalendarView\<close> computes with \<open>Date\<close> objects. The functions below follow the
  definitions of ECMA-262 (section "Date Objects"): \<open>DaysInYear\<close>, \<open>DayFromYear\<close>,
  \<open>InLeapYear\<close>, \<open>YearFromTime\<close>, \<open>MonthFromTime\<close>, \<open>DateFromTime\<close>, \<open>WeekDay\<close>,
  \<open>MakeDay\<close>, \<open>MakeFullYear\<close> and \<open>TimeClip\<close>. The component only builds dates at local
  midnight and only reads their year, month, day of the month and day of the week, so a
  \<open>Date\<close> is modelled by the number of its local day, counted from 1 January 1970, and
  the functions of a time value are written as functions of that day number
  (\<open>YearFromDay\<close>, \<open>MonthFromDay\<close>, \<open>DateFromDay\<close>). An invalid \<open>Date\<close>, and the number
  \<open>NaN\<close> it yields, is \<open>None\<close>.
\<close>

definition DaysInYear :: "int \<Rightarrow> int" where
  "DaysInYear y =
     (if y mod 4 \<noteq> 0 then 365
      else if y mod 100 \<noteq> 0 then 366
      else if y mod 400 \<noteq> 0 then 365
      else 366)"

definition DayFromYear :: "int \<Rightarrow> int" where
  "DayFromYear y =
     365 * (y - 1970) + (y - 1969) div 4 - (y - 1901) div 100 + (y - 1601) div 400"

definition InLeapYear :: "int \<Rightarrow> int" where
  "InLeapYear y = (if DaysInYear y = 366 then 1 else 0)"

text \<open>The standard defines \<open>YearFromTime\<close> as the largest year whose first day is not
  after the given day. \<open>year_search\<close> finds it by stepping from an estimate, down while
  the year starts too late and up while the next year has already begun.\<close>

function year_search :: "int \<Rightarrow> int \<Rightarrow> int" where
  "year_search d y =
     (if DayFromYear y > d then year_search d (y - 1)
      else if DayFromYear (y + 1) \<le> d then year_search d (y + 1)
      else y)"
  by pat_completeness auto

definition YearFromDay :: "int \<Rightarrow> int" where
  "YearFromDay d = year_search d (1970 + d div 366)"

definition DayWithinYear :: "int \<Rightarrow> int" where
  "DayWithinYear d = d - DayFromYear (YearFromDay d)"

definition MonthFromDay :: "int \<Rightarrow> int" where
  "MonthFromDay d =
     (let dwy = DayWithinYear d; leap = InLeapYear (YearFromDay d) in
      if dwy < 31 then 0
      else if dwy < 59 + leap then 1
      else if dwy < 90 + leap then 2
      else if dwy < 120 + leap then 3
      else if dwy < 151 + leap then 4
      else if dwy < 181 + leap then 5
      else if dwy < 212 + leap then 6
      else if dwy < 243 + leap then 7
      else if dwy < 273 + leap then 8
      else if dwy < 304 + leap then 9
      else if dwy < 334 + leap then 10
      else 11)"

definition DateFromDay :: "int \<Rightarrow> int" where
  "DateFromDay d =
     (let dwy = DayWithinYear d; leap = InLeapYear (YearFromDay d); mn = MonthFromDay d in
      if mn = 0 then dwy + 1
      else if mn = 1 then dwy - 30
      else if mn = 2 then dwy - 58 - leap
      else if mn = 3 then dwy - 89 - leap
      else if mn = 4 then dwy - 119 - leap
      else if mn = 5 then dwy - 150 - leap
      else if mn = 6 then dwy - 180 - leap
      else if mn = 7 then dwy - 211 - leap
      else if mn = 8 then dwy - 242 - leap
      else if mn = 9 then dwy - 272 - leap
      else if mn = 10 then dwy - 303 - leap
      else dwy - 333 - leap)"

definition WeekDay :: "int \<Rightarrow> int" where
  "WeekDay d = (d + 4) mod 7"

text \<open>\<open>MakeDay\<close> asks for the day on which month \<open>mn\<close> of year \<open>ym\<close> begins;
  \<open>month_start\<close> is that day within the year, read off the table of \<open>MonthFromTime\<close>.\<close>

definition month_start :: "int \<Rightarrow> int \<Rightarrow> int" where
  "month_start mn leap =
     (if mn = 0 then 0 else if mn = 1 then 31 else if mn = 2 then 59 + leap
      else if mn = 3 then 90 + leap else if mn = 4 then 120 + leap
      else if mn = 5 then 151 + leap else if mn = 6 then 181 + leap
      else if mn = 7 then 212 + leap else if mn = 8 then 243 + leap
      else if mn = 9 then 273 + leap else if mn = 10 then 304 + leap
      else 334 + leap)"

definition MakeDay :: "int \<Rightarrow> int \<Rightarrow> int \<Rightarrow> int" where
  "MakeDay year month dt =
     (let ym = year + month div 12;
          mn = month mod 12
      in DayFromYear ym + month_start mn (InLeapYear ym) + dt - 1)"

text \<open>A time value is valid up to 8.64e15 milliseconds from the epoch, which is
  100,000,000 days.\<close>

definition TimeClip :: "int \<Rightarrow> int option" where
  "TimeClip d = (if \<bar>d\<bar> \<le> 100000000 then Some d else None)"

text \<open>The \<open>Date\<close> constructor reads a year from 0 to 99 as a year of the twentieth
  century.\<close>

definition MakeFullYear :: "int \<Rightarrow> int" where
  "MakeFullYear y = (if 0 \<le> y \<and> y \<le> 99 then 1900 + y else y)"

text \<open>\<open>new Date(year, month, date)\<close>; a \<open>NaN\<close> argument gives an invalid date.\<close>

definition new_Date :: "int option \<Rightarrow> int option \<Rightarrow> int \<Rightarrow> int option" where
  "new_Date year month dt =
     (case year of None \<Rightarrow> None | Some y \<Rightarrow>
      (case month of None \<Rightarrow> None | Some m \<Rightarrow>
         TimeClip (MakeDay (MakeFullYear y) m dt)))"

definition getFullYear :: "int option \<Rightarrow> int option" where
  "getFullYear date = map_option YearFromDay date"

definition getMonth :: "int option \<Rightarrow> int option" where
  "getMonth date = map_option MonthFromDay date"

definition getDate :: "int option \<Rightarrow> int option" where
  "getDate date = map_option DateFromDay date"

definition getDay :: "int option \<Rightarrow> int option" where
  "getDay date = map_option WeekDay date"

text \<open>\<open>String(n)\<close> for an integer, and \<open>padStart\<close> with a pad string of one
  character.\<close>

definition digit_char :: "nat \<Rightarrow> char" where
  "digit_char n = ''0123456789'' ! n"

fun digits :: "nat \<Rightarrow> string" where
  "digits n = (if n < 10 then [digit_char n] else digits (n div 10) @ [digit_char (n mod 10)])"

declare digits.simps [simp del]

definition String_of_int :: "int \<Rightarrow> string" where
  "String_of_int i = (if i < 0 then CHR ''-'' # digits (nat (- i)) else digits (nat i))"

definition padStart :: "string \<Rightarrow> nat \<Rightarrow> char \<Rightarrow> string" where
  "padStart s targetLength c = replicate (targetLength - length s) c @ s"

text \<open>\<open>Array(len)\<close> throws a \<open>RangeError\<close> unless \<open>len\<close> is an integer from 0 to
  \<open>2^32 - 1\<close>; spread and mapped with the index, it yields one element per index.\<close>

datatype js_error = RangeError

definition Array_indices :: "int option \<Rightarrow> js_error + nat list" where
  "Array_indices len =
     (case len of
        None \<Rightarrow> Inl RangeError
      | Some n \<Rightarrow> if 0 \<le> n \<and> n < 4294967296 then Inr [0..<nat n] else Inl RangeError)"

subsection \<open>The functions of \<open>CalendarView\<close>\<close>

definition getDaysInMonth :: "int option \<Rightarrow> int option \<times> int option" where
  "getDaysInMonth date =
     (let year = getFullYear date;
          month = getMonth date;
          firstDay = new_Date year month 1;
          lastDay = new_Date year (map_option (\<lambda>m. m + 1) month) 0;
          daysInMonth = getDate lastDay;
          startingDayOfWeek = getDay firstDay
      in (daysInMonth, startingDayOfWeek))"

text \<open>The fields of a daily log and of a planned session that the calendar reads; their
  \<open>id\<close> fields are written \<open>id_log\<close> and \<open>id_session\<close>.\<close>

record daily_log =
  id_log :: string
  date :: string
  total_time_spent :: int

record planned_session =
  id_session :: string
  course_id_session :: string
  planned_date :: string
  estimated_time :: int

definition getActivityForDate ::
  "daily_log list \<Rightarrow> planned_session list \<Rightarrow> string
     \<Rightarrow> daily_log option \<times> planned_session list" where
  "getActivityForDate dailyLogs plannedSessions ds =
     (find (\<lambda>l. date l = ds) dailyLogs, filter (\<lambda>p. planned_date p = ds) plannedSessions)"

text \<open>The template literal that builds the key of a day cell from
  \<open>currentDate.getFullYear()\<close>, \<open>currentDate.getMonth()\<close> and the day.\<close>

definition dateStr :: "int \<Rightarrow> int \<Rightarrow> int \<Rightarrow> string" where
  "dateStr fullYear month day =
     String_of_int fullYear @ ''-'' @ padStart (String_of_int (month + 1)) 2 CHR ''0''
       @ ''-'' @ padStart (String_of_int day) 2 CHR ''0''"

text \<open>The cells below the header row of the grid: a blank cell with its index, or a day
  cell with the day number, its date string, the log found for it and the sessions
  planned for it.\<close>

datatype cell =
    Empty_cell nat
  | Day_cell int string "daily_log option" "planned_session list"

definition day_cell ::
  "int \<Rightarrow> int \<Rightarrow> daily_log list \<Rightarrow> planned_session list \<Rightarrow> nat \<Rightarrow> cell" where
  "day_cell fullYear month dailyLogs plannedSessions i =
     (let day = int i + 1;
          ds = dateStr fullYear month day;
          (log, planned) = getActivityForDate dailyLogs plannedSessions ds
      in Day_cell day ds log planned)"

definition calendar_cells ::
  "int option \<Rightarrow> daily_log list \<Rightarrow> planned_session list \<Rightarrow> js_error + cell list" where
  "calendar_cells currentDate dailyLogs plannedSessions =
     (let (daysInMonth, startingDayOfWeek) = getDaysInMonth currentDate in
      case Array_indices startingDayOfWeek of
        Inl e \<Rightarrow> Inl e
      | Inr blanks \<Rightarrow>
          (case Array_indices daysInMonth of
             Inl e \<Rightarrow> Inl e
           | Inr days \<Rightarrow>
               (case (getFullYear currentDate, getMonth currentDate) of
                  (Some fullYear, Some month) \<Rightarrow>
                    Inr (map Empty_cell blanks
                         @ map (day_cell fullYear month dailyLogs plannedSessions) days)
                | _ \<Rightarrow> Inl RangeError)))"

subsection \<open>The calendar the grid is compared with\<close>

text \<open>
  The reference follows the words of the specification and the Gregorian calendar, and
  not the formulas above: a year is a leap year when it is divisible by 4 and not by 100,
  or by 400; the months have their usual lengths; the number of a day is obtained by
  counting the days of the years and months that lie between it and 1 January 1970,
  which was a Thursday; and a date is written zero-padded as \<open>YYYY-MM-DD\<close>. Months are
  zero-based.
\<close>

definition is_leap_year :: "int \<Rightarrow> bool" where
  "is_leap_year y = (y mod 4 = 0 \<and> (y mod 100 \<noteq> 0 \<or> y mod 400 = 0))"

definition year_length :: "int \<Rightarrow> int" where
  "year_length y = (if is_leap_year y then 366 else 365)"

definition days_in_month :: "int \<Rightarrow> int \<Rightarrow> int" where
  "days_in_month y m =
     (if m = 1 then (if is_leap_year y then 29 else 28)
      else if m = 3 \<or> m = 5 \<or> m = 8 \<or> m = 10 then 30
      else 31)"

definition days_before_year :: "int \<Rightarrow> int" where
  "days_before_year y =
     (if 1970 \<le> y then sum_list (map year_length [1970..y - 1])
      else - sum_list (map year_length [y..1969]))"

definition day_number :: "int \<Rightarrow> int \<Rightarrow> int \<Rightarrow> int" where
  "day_number y m d =
     days_before_year y + sum_list (map (days_in_month y) [0..m - 1]) + (d - 1)"

definition weekday_of :: "int \<Rightarrow> int \<Rightarrow> int \<Rightarrow> int" where
  "weekday_of y m d = (4 + day_number y m d) mod 7"

definition zero_pad :: "nat \<Rightarrow> string \<Rightarrow> string" where
  "zero_pad w s = replicate (w - length s) CHR ''0'' @ s"

definition iso_date :: "int \<Rightarrow> int \<Rightarrow> int \<Rightarrow> string" where
  "iso_date y m d =
     zero_pad 4 (String_of_int y) @ ''-'' @ zero_pad 2 (String_of_int (m + 1))
       @ ''-'' @ zero_pad 2 (String_of_int d)"

section \<open>Streak\<close>

text \<open>
  The view layer only displays \<open>analytics.current_streak\<close>, which it receives from
  \<open>GET /api/analytics/summary\<close>; the backend function that computes it is not among the
  sources. The definitions of this section are therefore written from the specification.
  A date is the number of its day, so that consecutive calendar days are consecutive
  integers, and the set of dates with a log is given as a list.
\<close>

text \<open>Modelled from the spec: the backend's walk over the logged dates, which is missing
  from the sources. Starting at day \<open>d\<close> and walking backward, it counts the days that
  have a logged entry and stops at the first gap.\<close>

function consecutive_days_back :: "int list \<Rightarrow> int \<Rightarrow> nat" where
  "consecutive_days_back logged d =
     (if d \<in> set logged then Suc (consecutive_days_back logged (d - 1)) else 0)"
  by pat_completeness auto
termination
proof (relation "measure (\<lambda>(logged, d). card {x \<in> set logged. x \<le> d})", goal_cases)
  case 1
  show ?case by simp
next
  case (2 logged d)
  have "{x \<in> set logged. x \<le> d - 1} \<subset> {x \<in> set logged. x \<le> d}"
    using 2 by auto
  then have "card {x \<in> set logged. x \<le> d - 1} < card {x \<in> set logged. x \<le> d}"
    by (intro psubset_card_mono) simp_all
  then show ?case by simp
qed

declare consecutive_days_back.simps [simp del]

text \<open>Modelled from the spec: the first reading of the backend's streak computation
  (missing from the sources), "the count of consecutive calendar days, walking backward
  from today, such that every day in the walk has a logged entry, stopping at the first
  gap".\<close>

definition streak_walking_back_from_today :: "int list \<Rightarrow> int \<Rightarrow> nat" where
  "streak_walking_back_from_today logged today = consecutive_days_back logged today"

text \<open>Modelled from the spec: the most recent logged day of the backend's streak
  computation (missing from the sources); there is none when nothing is logged.\<close>

definition most_recent_logged_day :: "int list \<Rightarrow> int option" where
  "most_recent_logged_day logged =
     (case logged of [] \<Rightarrow> None | d # ds \<Rightarrow> Some (fold max ds d))"

text \<open>Modelled from the spec: the backend's \<open>current_streak\<close> (missing from the sources)
  under the rule the specification fixes, "the streak counts consecutive logged days
  ending at the most recent logged day, and is reported as 0 only if that most recent
  day is more than one day in the past"; the data model and the glossary describe the
  field in the same way ("ending today or yesterday", "ending at the most recent logged
  day").\<close>

definition current_streak :: "int list \<Rightarrow> int \<Rightarrow> nat" where
  "current_streak logged today =
     (case most_recent_logged_day logged of
        None \<Rightarrow> 0
      | Some recent \<Rightarrow>
          if today - recent > 1 then 0 else consecutive_days_back logged recent)"

section \<open>Sample data\<close>

text \<open>A small catalog and form states on which the theorems are instantiated.\<close>

definition course_html :: course where
  "course_html = \<lparr>id_course = ''c1'', title = ''HTML Basics'', phase = 1,
     phase_title = ''Foundations'', status = ''Not Started'', progress = 0,
     priority = ''MUST''\<rparr>"

definition course_css :: course where
  "course_css = \<lparr>id_course = ''c2'', title = ''CSS Layout'', phase = 1,
     phase_title = ''Foundations'', status = ''In Progress'', progress = 40,
     priority = ''Optional''\<rparr>"

definition course_js :: course where
  "course_js = \<lparr>id_course = ''c3'', title = ''JavaScript'', phase = 2,
     phase_title = ''Scripting'', status = ''Completed'', progress = 100,
     priority = ''MUST''\<rparr>"

definition catalog :: "course list" where
  "catalog = [course_html, course_css, course_js]"

definition entry_c1_30 :: log_entry where
  "entry_c1_30 = \<lparr>course_id = ''c1'', course_title = ''HTML Basics'', time_spent = 30,
     progress_notes = []\<rparr>"

definition entry_blank :: log_entry where
  "entry_blank = \<lparr>course_id = [], course_title = [], time_spent = 0, progress_notes = []\<rparr>"

definition entry_c1_0 :: log_entry where
  "entry_c1_0 = \<lparr>course_id = ''c1'', course_title = ''HTML Basics'', time_spent = 0,
     progress_notes = []\<rparr>"

definition tracker_form :: "log_entry list \<Rightarrow> tracker_state" where
  "tracker_form es = \<lparr>selectedDate = ''2024-03-05'', selectedCourses = es,
     notes_field = ''good day'', mood = Some 4\<rparr>"

definition app_snapshot :: app_state where
  "app_snapshot = \<lparr>courses = catalog, analytics = None, showCourseDetail = Some course_css\<rparr>"

definition backend_down :: backend_answers where
  "backend_down = \<lparr>mutation_ok = False, courses_response = None, analytics_response = None\<rparr>"

definition backend_up :: backend_answers where
  "backend_up = \<lparr>mutation_ok = True, courses_response = Some catalog,
     analytics_response = None\<rparr>"

definition calendar_form :: calendar_state where
  "calendar_form = \<lparr>showAddModal = True, selectedDate_cal = Some ''2024-03-05'',
     selectedCourse = ''c1'', estimatedTime = 60, planNotes = []\<rparr>"

definition log_may1 :: daily_log where
  "log_may1 = \<lparr>id_log = ''l1'', date = ''2024-05-01'', total_time_spent = 45\<rparr>"

definition log_may3 :: daily_log where
  "log_may3 = \<lparr>id_log = ''l2'', date = ''2024-05-03'', total_time_spent = 30\<rparr>"

definition session_a :: planned_session where
  "session_a = \<lparr>id_session = ''s1'', course_id_session = ''c1'', planned_date = ''2024-05-01'',
     estimated_time = 60\<rparr>"

definition session_b :: planned_session where
  "session_b = \<lparr>id_session = ''s2'', course_id_session = ''c2'', planned_date = ''2024-05-01'',
     estimated_time = 30\<rparr>"

lemmas sample_defs = course_html_def course_css_def course_js_def catalog_def

section \<open>Filtered view and phase grouping: proofs\<close>

text \<open>Unless the phase criterion is the number 0, the predicate of the source is the
  contract; the group stored under a phase is determined by the first course of that
  phase and by the courses of that phase.\<close>

lemma flat_pred_iff:
  "selectedPhase f \<noteq> Some 0 \<Longrightarrow> flat_pred f c = satisfies_criteria f c"
  by (auto simp: flat_pred_def satisfies_criteria_def truthy_phase_def split: option.splits)

lemma group_pred_eq: "group_pred f c = flat_pred f c"
  by (auto simp: group_pred_def flat_pred_def)

lemma add_course_upd:
  "add_course m c p =
     (if phase c = p
      then Some (case m p of None \<Rightarrow> \<lparr>title_pg = phase_title c, courses_pg = [c]\<rparr>
                 | Some g \<Rightarrow> g\<lparr>courses_pg := courses_pg g @ [c]\<rparr>)
      else m p)"
  by (auto simp: add_course_def Let_def split: option.splits)

lemma foldl_add_course:
  "foldl add_course m cs p =
     (case m p of
        None \<Rightarrow> map_option (\<lambda>c0. \<lparr>title_pg = phase_title c0,
                                   courses_pg = filter (\<lambda>c. phase c = p) cs\<rparr>)
                  (find (\<lambda>c. phase c = p) cs)
      | Some g \<Rightarrow> Some (g\<lparr>courses_pg := courses_pg g @ filter (\<lambda>c. phase c = p) cs\<rparr>))"
proof (induction cs arbitrary: m)
  case Nil
  then show ?case by (simp split: option.splits)
next
  case (Cons c cs)
  have "foldl add_course m (c # cs) p = foldl add_course (add_course m c) cs p"
    by simp
  also have "\<dots> =
     (case add_course m c p of
        None \<Rightarrow> map_option (\<lambda>c0. \<lparr>title_pg = phase_title c0,
                                   courses_pg = filter (\<lambda>c. phase c = p) cs\<rparr>)
                  (find (\<lambda>c. phase c = p) cs)
      | Some g \<Rightarrow> Some (g\<lparr>courses_pg := courses_pg g @ filter (\<lambda>c. phase c = p) cs\<rparr>))"
    by (rule Cons.IH)
  also have "\<dots> =
     (case m p of
        None \<Rightarrow> map_option (\<lambda>c0. \<lparr>title_pg = phase_title c0,
                                   courses_pg = filter (\<lambda>c. phase c = p) (c # cs)\<rparr>)
                  (find (\<lambda>c. phase c = p) (c # cs))
      | Some g \<Rightarrow> Some (g\<lparr>courses_pg := courses_pg g @ filter (\<lambda>c. phase c = p) (c # cs)\<rparr>))"
    unfolding add_course_upd by (simp split: option.splits)
  finally show ?case .
qed

lemma getCoursesByPhase_lookup:
  "getCoursesByPhase cs p =
     map_option (\<lambda>c0. \<lparr>title_pg = phase_title c0, courses_pg = filter (\<lambda>c. phase c = p) cs\<rparr>)
       (find (\<lambda>c. phase c = p) cs)"
  by (simp add: getCoursesByPhase_def foldl_add_course)


text \<open>
  C3. For every course list and every choice of the three criteria, \<open>getFilteredCourses\<close>
  returns exactly the courses that satisfy every active criterion, in the order of the
  course list; with all three criteria at "all" it returns the whole list. The phase
  criterion is \<open>null\<close> or the phase of a course picked in the phase selector; phases are
  numbered from 1, so it is never the number 0, which is the hypothesis.
\<close>

theorem filtered_courses_exact:
  "selectedPhase f \<noteq> Some 0 \<Longrightarrow>
     getFilteredCourses f cs = filter (satisfies_criteria f) cs \<and>
     subseq (getFilteredCourses f cs) cs \<and>
     (selectedPhase f = None \<and> statusFilter f = ''all'' \<and> priorityFilter f = ''all''
        \<longrightarrow> getFilteredCourses f cs = cs)"
  by (auto simp: getFilteredCourses_def flat_pred_iff satisfies_criteria_def cong: filter_cong)

text \<open>C3 at the sample catalog: phase 1 and priority MUST select the first course.\<close>

theorem filtered_courses_exact_witness:
  "selectedPhase \<lparr>selectedPhase = Some 1, statusFilter = ''all'', priorityFilter = ''MUST''\<rparr>
     \<noteq> Some 0 \<and>
   getFilteredCourses
     \<lparr>selectedPhase = Some 1, statusFilter = ''all'', priorityFilter = ''MUST''\<rparr> catalog
     = [course_html] \<and>
   getFilteredCourses
     \<lparr>selectedPhase = None, statusFilter = ''all'', priorityFilter = ''all''\<rparr> catalog
     = catalog"
  using filtered_courses_exact [of "\<lparr>selectedPhase = Some 1, statusFilter = ''all'', priorityFilter = ''MUST''\<rparr>"
      catalog]
    filtered_courses_exact [of "\<lparr>selectedPhase = None, statusFilter = ''all'', priorityFilter = ''all''\<rparr>"
      catalog]
  by (simp add: satisfies_criteria_def sample_defs)

text \<open>
  C4. The predicate of the flat filter and the predicate applied inside each phase group
  agree on every course and every filter setting; a course is in the flat filtered list
  if and only if it is in the filtered list of the group of its own phase; and the
  filtered list of the group of phase \<open>p\<close> is the flat filtered list restricted to \<open>p\<close>.
\<close>

theorem flat_and_group_filter_agree:
  "group_pred f c = flat_pred f c \<and>
   (c \<in> set (getFilteredCourses f cs) \<longleftrightarrow>
      (\<exists>g. getCoursesByPhase cs (phase c) = Some g \<and> c \<in> set (phaseCourses f g))) \<and>
   (\<forall>p g. getCoursesByPhase cs p = Some g \<longrightarrow>
      phaseCourses f g = filter (\<lambda>c. phase c = p) (getFilteredCourses f cs))"
proof (intro conjI allI impI)
  show "group_pred f c = flat_pred f c" by (rule group_pred_eq)
next
  show "c \<in> set (getFilteredCourses f cs) \<longleftrightarrow>
      (\<exists>g. getCoursesByPhase cs (phase c) = Some g \<and> c \<in> set (phaseCourses f g))"
  proof
    assume h: "c \<in> set (getFilteredCourses f cs)"
    then have "c \<in> set cs" "flat_pred f c" by (auto simp: getFilteredCourses_def)
    then have "find (\<lambda>x. phase x = phase c) cs \<noteq> None"
      by (auto simp: find_None_iff)
    then obtain c0 where "find (\<lambda>x. phase x = phase c) cs = Some c0" by auto
    with \<open>c \<in> set cs\<close> \<open>flat_pred f c\<close> show "\<exists>g. getCoursesByPhase cs (phase c) = Some g \<and> c \<in> set (phaseCourses f g)"
      by (simp add: getCoursesByPhase_lookup phaseCourses_def group_pred_eq)
  next
    assume "\<exists>g. getCoursesByPhase cs (phase c) = Some g \<and> c \<in> set (phaseCourses f g)"
    then show "c \<in> set (getFilteredCourses f cs)"
      by (auto simp: getCoursesByPhase_lookup phaseCourses_def group_pred_eq
          getFilteredCourses_def)
  qed
next
  fix p g assume "getCoursesByPhase cs p = Some g"
  then show "phaseCourses f g = filter (\<lambda>c. phase c = p) (getFilteredCourses f cs)"
    by (auto simp: getCoursesByPhase_lookup phaseCourses_def getFilteredCourses_def
        group_pred_eq conj_commute cong: filter_cong)
qed

lemma count_list_filter:
  "count_list (filter P xs) x = (if P x then count_list xs x else 0)"
  by (induction xs) auto

lemma count_list_distinct:
  "distinct xs \<Longrightarrow> x \<in> set xs \<Longrightarrow> count_list xs x = 1"
  by (induction xs) auto

lemma group_of_phase:
  assumes "getCoursesByPhase cs p = Some g"
  shows "courses_pg g \<noteq> [] \<and> courses_pg g = filter (\<lambda>c. phase c = p) cs \<and>
      subseq (courses_pg g) cs \<and>
      (\<exists>c0. find (\<lambda>c. phase c = p) cs = Some c0 \<and> title_pg g = phase_title c0)"
proof -
  from assms obtain c0 where c0: "find (\<lambda>c. phase c = p) cs = Some c0"
    and g: "g = \<lparr>title_pg = phase_title c0, courses_pg = filter (\<lambda>c. phase c = p) cs\<rparr>"
    by (auto simp: getCoursesByPhase_lookup)
  from c0 have "c0 \<in> set cs" "phase c0 = p"
    by (auto simp: find_Some_iff)
  then have "c0 \<in> set (filter (\<lambda>c. phase c = p) cs)" by simp
  then have ne: "filter (\<lambda>c. phase c = p) cs \<noteq> []" by force
  show ?thesis using ne c0 by (simp add: g)
qed

lemma course_in_own_group:
  assumes c: "c \<in> set cs"
  shows "\<exists>g. getCoursesByPhase cs (phase c) = Some g \<and>
      count_list (courses_pg g) c = count_list cs c \<and>
      (distinct cs \<longrightarrow> count_list (courses_pg g) c = 1)"
proof -
  from c have "find (\<lambda>x. phase x = phase c) cs \<noteq> None"
    by (auto simp: find_None_iff)
  then obtain c0 where c0: "find (\<lambda>x. phase x = phase c) cs = Some c0" by auto
  have one: "distinct cs \<Longrightarrow> count_list cs c = 1"
    using c by (simp add: count_list_distinct)
  show ?thesis
    using one by (simp add: getCoursesByPhase_lookup c0 count_list_filter)
qed

lemma course_not_in_other_group:
  "getCoursesByPhase cs p = Some g \<Longrightarrow> phase c \<noteq> p \<Longrightarrow> c \<notin> set (courses_pg g)"
  by (auto simp: getCoursesByPhase_lookup)

text \<open>
  C5. \<open>getCoursesByPhase\<close> maps a phase \<open>p\<close> to a group exactly when the list has a course
  of phase \<open>p\<close>; the group holds the courses of phase \<open>p\<close> in catalog order, it is never
  empty, and its title is the \<open>phase_title\<close> of the first course of that phase. Every
  course of the list occurs in the group of its own phase as often as in the list (once,
  when the list has no duplicates) and in no other group.
\<close>

theorem phase_grouping_correct:
  "getCoursesByPhase cs p =
     map_option (\<lambda>c0. \<lparr>title_pg = phase_title c0, courses_pg = filter (\<lambda>c. phase c = p) cs\<rparr>)
       (find (\<lambda>c. phase c = p) cs) \<and>
   (\<forall>g. getCoursesByPhase cs p = Some g \<longrightarrow>
      courses_pg g \<noteq> [] \<and> courses_pg g = filter (\<lambda>c. phase c = p) cs \<and>
      subseq (courses_pg g) cs \<and>
      (\<exists>c0. find (\<lambda>c. phase c = p) cs = Some c0 \<and> title_pg g = phase_title c0)) \<and>
   (\<forall>c \<in> set cs. \<exists>g. getCoursesByPhase cs (phase c) = Some g \<and>
      count_list (courses_pg g) c = count_list cs c \<and>
      (distinct cs \<longrightarrow> count_list (courses_pg g) c = 1)) \<and>
   (\<forall>c g. getCoursesByPhase cs p = Some g \<and> phase c \<noteq> p \<longrightarrow> c \<notin> set (courses_pg g))"
proof -
  have p1: "getCoursesByPhase cs p =
     map_option (\<lambda>c0. \<lparr>title_pg = phase_title c0, courses_pg = filter (\<lambda>c. phase c = p) cs\<rparr>)
       (find (\<lambda>c. phase c = p) cs)"
    by (rule getCoursesByPhase_lookup)
  have p2: "\<forall>g. getCoursesByPhase cs p = Some g \<longrightarrow>
      courses_pg g \<noteq> [] \<and> courses_pg g = filter (\<lambda>c. phase c = p) cs \<and>
      subseq (courses_pg g) cs \<and>
      (\<exists>c0. find (\<lambda>c. phase c = p) cs = Some c0 \<and> title_pg g = phase_title c0)"
    using group_of_phase by blast
  have p3: "\<forall>c \<in> set cs. \<exists>g. getCoursesByPhase cs (phase c) = Some g \<and>
      count_list (courses_pg g) c = count_list cs c \<and>
      (distinct cs \<longrightarrow> count_list (courses_pg g) c = 1)"
    using course_in_own_group by blast
  have p4: "\<forall>c g. getCoursesByPhase cs p = Some g \<and> phase c \<noteq> p \<longrightarrow> c \<notin> set (courses_pg g)"
    using course_not_in_other_group by blast
  show ?thesis by (rule conjI [OF p1 conjI [OF p2 conjI [OF p3 p4]]])
qed

text \<open>C5 at the sample catalog: two groups, none for phase 3.\<close>

theorem phase_grouping_correct_witness:
  "getCoursesByPhase catalog 1 =
     Some \<lparr>title_pg = ''Foundations'', courses_pg = [course_html, course_css]\<rparr> \<and>
   getCoursesByPhase catalog 2 = Some \<lparr>title_pg = ''Scripting'', courses_pg = [course_js]\<rparr> \<and>
   getCoursesByPhase catalog 3 = None \<and>
   course_css \<in> set catalog \<and>
   (\<exists>g. getCoursesByPhase catalog (phase course_css) = Some g \<and>
      count_list (courses_pg g) course_css = count_list catalog course_css)"
proof -
  have a: "getCoursesByPhase catalog 1 =
     Some \<lparr>title_pg = ''Foundations'', courses_pg = [course_html, course_css]\<rparr>"
    using phase_grouping_correct [of catalog 1, THEN conjunct1] by (simp add: sample_defs)
  have b: "getCoursesByPhase catalog 2 =
     Some \<lparr>title_pg = ''Scripting'', courses_pg = [course_js]\<rparr>"
    using phase_grouping_correct [of catalog 2, THEN conjunct1] by (simp add: sample_defs)
  have c: "getCoursesByPhase catalog 3 = None"
    using phase_grouping_correct [of catalog 3, THEN conjunct1] by (simp add: sample_defs)
  have d: "course_css \<in> set catalog" by (simp add: catalog_def)
  have e: "\<exists>g. getCoursesByPhase catalog (phase course_css) = Some g \<and>
      count_list (courses_pg g) course_css = count_list catalog course_css"
    using phase_grouping_correct [of catalog 1, THEN conjunct2, THEN conjunct2, THEN conjunct1, THEN bspec, OF d]
    by blast
  show ?thesis using a b c d e by blast
qed

text \<open>C4 at the sample catalog with the status filter at \<open>'Completed'\<close>.\<close>

theorem flat_and_group_filter_agree_witness:
  "course_js \<in> set (getFilteredCourses
      \<lparr>selectedPhase = None, statusFilter = ''Completed'', priorityFilter = ''all''\<rparr> catalog) \<and>
   (\<exists>g. getCoursesByPhase catalog (phase course_js) = Some g \<and> course_js \<in> set (phaseCourses
      \<lparr>selectedPhase = None, statusFilter = ''Completed'', priorityFilter = ''all''\<rparr> g))"
proof -
  have a: "course_js \<in> set (getFilteredCourses
      \<lparr>selectedPhase = None, statusFilter = ''Completed'', priorityFilter = ''all''\<rparr> catalog)"
    by (simp add: getFilteredCourses_def flat_pred_def truthy_phase_def sample_defs)
  show ?thesis
    using a flat_and_group_filter_agree [of "\<lparr>selectedPhase = None, statusFilter = ''Completed'', priorityFilter = ''all''\<rparr>"
      course_js catalog, THEN conjunct2, THEN conjunct1]
    by blast
qed

section \<open>Mutations and submissions: proofs\<close>

lemma updateCourseProgress_mutations:
  "filter is_mutation (snd (updateCourseProgress net st i p s)) = [Http_patch_progress i p s]"
  by (simp add: updateCourseProgress_def fetchCourses_def fetchAnalytics_def
      split: option.splits)

text \<open>
  C6. \<open>handleStartCourse\<close> on a course whose status is \<open>'Not Started'\<close> issues exactly one
  mutation, the progress update with progress 5 and status \<open>'In Progress'\<close>; on a course in
  any other status it does nothing at all. \<open>handleCompleteCourse\<close> issues, from any status,
  exactly the progress update with progress 100 and status \<open>'Completed'\<close>.
\<close>

theorem start_and_complete_transitions:
  "(status c = ''Not Started'' \<longrightarrow>
      filter is_mutation (snd (handleStartCourse net st c))
        = [Http_patch_progress (id_course c) 5 ''In Progress'']) \<and>
   (status c \<noteq> ''Not Started'' \<longrightarrow> handleStartCourse net st c = (st, [])) \<and>
   filter is_mutation (snd (handleCompleteCourse net st c))
     = [Http_patch_progress (id_course c) 100 ''Completed'']"
  by (simp add: handleStartCourse_def handleCompleteCourse_def updateCourseProgress_mutations)

text \<open>C6 at a course that is not started and at one that is in progress.\<close>

theorem start_and_complete_transitions_witness:
  "status course_html = ''Not Started'' \<and>
   filter is_mutation (snd (handleStartCourse backend_up app_snapshot course_html))
     = [Http_patch_progress ''c1'' 5 ''In Progress''] \<and>
   status course_css \<noteq> ''Not Started'' \<and>
   handleStartCourse backend_up app_snapshot course_css = (app_snapshot, []) \<and>
   filter is_mutation (snd (handleCompleteCourse backend_up app_snapshot course_css))
     = [Http_patch_progress ''c2'' 100 ''Completed'']"
proof -
  have a: "status course_html = ''Not Started''" "id_course course_html = ''c1''"
    by (simp_all add: course_html_def)
  have b: "status course_css \<noteq> ''Not Started''" "id_course course_css = ''c2''"
    by (simp_all add: course_css_def)
  note h = start_and_complete_transitions [of course_html backend_up app_snapshot]
  note k = start_and_complete_transitions [of course_css backend_up app_snapshot]
  show ?thesis
    using a b h [THEN conjunct1] k [THEN conjunct2] by simp
qed

text \<open>
  C7. The manual update derives \<open>'Completed'\<close> from a progress of at least 100,
  \<open>'In Progress'\<close> from a progress strictly between 0 and 100 and \<open>'Not Started'\<close> from
  0, whatever the course and its previous status; a progress of 100 always gives
  \<open>'Completed'\<close>; and the one mutation issued carries the progress and the derived status.
\<close>

theorem manual_update_status:
  "(prog \<ge> 100 \<longrightarrow> handleUpdate c prog = (prog, ''Completed'')) \<and>
   (0 < prog \<and> prog < 100 \<longrightarrow> handleUpdate c prog = (prog, ''In Progress'')) \<and>
   (prog = 0 \<longrightarrow> handleUpdate c prog = (prog, ''Not Started'')) \<and>
   handleUpdate c 100 = (100, ''Completed'') \<and>
   (showCourseDetail st = Some c \<longrightarrow>
      filter is_mutation (snd (manual_update net st prog))
        = [Http_patch_progress (id_course c) prog (snd (handleUpdate c prog))])"
  by (simp add: handleUpdate_def manual_update_def onUpdate_def split_beta
      updateCourseProgress_mutations)

text \<open>C7 at progress 100 for a course not started and for a completed one, and at 55
  and 0.\<close>

theorem manual_update_status_witness:
  "handleUpdate course_html 100 = (100, ''Completed'') \<and>
   handleUpdate course_js 100 = (100, ''Completed'') \<and>
   handleUpdate course_js 55 = (55, ''In Progress'') \<and>
   handleUpdate course_css 0 = (0, ''Not Started'') \<and>
   showCourseDetail app_snapshot = Some course_css \<and>
   filter is_mutation (snd (manual_update backend_up app_snapshot 100))
     = [Http_patch_progress ''c2'' 100 ''Completed'']"
  using manual_update_status [of 100 course_html] manual_update_status [of 100 course_js] manual_update_status [of 55 course_js]
    manual_update_status [of 0 course_css] manual_update_status [of 100 course_css app_snapshot backend_up]
  by (simp add: app_snapshot_def course_css_def)


text \<open>
  C8. When the entry list is empty, or no entry has both a selected course and a positive
  time, \<open>handleSubmit\<close> only shows an alert: the form is unchanged and no request is sent.
  Otherwise the only request is the \<open>POST\<close> whose body holds exactly the entries with a
  selected course and a positive time, in order, with the date, the notes and the mood.
\<close>

theorem daily_log_submission:
  "(selectedCourses ts = [] \<or> filter valid_entry (selectedCourses ts) = [] \<longrightarrow>
      (\<exists>msg. handleSubmit post_ok ts = (ts, [Alert msg]))) \<and>
   (filter valid_entry (selectedCourses ts) \<noteq> [] \<longrightarrow>
      filter is_request (snd (handleSubmit post_ok ts))
        = [Http_post_log \<lparr>date_body = selectedDate ts,
             courses_body = filter (\<lambda>e. course_id e \<noteq> [] \<and> time_spent e > 0) (selectedCourses ts),
             notes_body = notes_field ts, mood_body = mood ts\<rparr>])"
proof -
  have v: "valid_entry = (\<lambda>e. course_id e \<noteq> [] \<and> time_spent e > 0)"
    by (rule ext) (simp add: valid_entry_def)
  show ?thesis
    by (cases "selectedCourses ts = []") (auto simp: handleSubmit_def Let_def v)
qed

text \<open>C8 at the two submissions named by the specification, and at the empty form.\<close>

theorem daily_log_submission_witness:
  "filter valid_entry (selectedCourses (tracker_form [entry_c1_30, entry_blank])) \<noteq> [] \<and>
   filter is_request (snd (handleSubmit True (tracker_form [entry_c1_30, entry_blank])))
     = [Http_post_log \<lparr>date_body = ''2024-03-05'', courses_body = [entry_c1_30],
          notes_body = ''good day'', mood_body = Some 4\<rparr>] \<and>
   filter valid_entry (selectedCourses (tracker_form [entry_c1_0])) = [] \<and>
   handleSubmit True (tracker_form [entry_c1_0])
     = (tracker_form [entry_c1_0], [Alert ''SELECT COURSES AND ADD TIME'']) \<and>
   handleSubmit True (tracker_form [])
     = (tracker_form [], [Alert ''ADD AT LEAST ONE COURSE''])"
proof -
  have a: "filter valid_entry (selectedCourses (tracker_form [entry_c1_30, entry_blank]))
      = [entry_c1_30]"
    by (simp add: tracker_form_def valid_entry_def entry_c1_30_def entry_blank_def)
  have b: "filter valid_entry (selectedCourses (tracker_form [entry_c1_0])) = []"
    by (simp add: tracker_form_def valid_entry_def entry_c1_0_def)
  have c: "filter is_request (snd (handleSubmit True (tracker_form [entry_c1_30, entry_blank])))
     = [Http_post_log \<lparr>date_body = ''2024-03-05'', courses_body = [entry_c1_30],
          notes_body = ''good day'', mood_body = Some 4\<rparr>]"
    using daily_log_submission [of "tracker_form [entry_c1_30, entry_blank]" True, THEN conjunct2] a
    by (simp add: tracker_form_def entry_c1_30_def entry_blank_def)
  obtain msg where d: "handleSubmit True (tracker_form [entry_c1_0])
      = (tracker_form [entry_c1_0], [Alert msg])"
    using daily_log_submission [of "tracker_form [entry_c1_0]" True, THEN conjunct1] b by blast
  have e: "handleSubmit True (tracker_form [entry_c1_0])
     = (tracker_form [entry_c1_0], [Alert ''SELECT COURSES AND ADD TIME''])"
    using b by (simp add: handleSubmit_def tracker_form_def)
  have f: "handleSubmit True (tracker_form [])
     = (tracker_form [], [Alert ''ADD AT LEAST ONE COURSE''])"
    by (simp add: handleSubmit_def tracker_form_def)
  show ?thesis using a b c d e f by simp
qed

text \<open>
  C9, as stated, fails for the progress update and for the deletion of a planned
  session: when the backend rejects the request, neither handler shows an alert.
\<close>

theorem silent_mutation_failure_counterexample:
  "filter is_alert
     (snd (updateCourseProgress backend_down app_snapshot ''c1'' 5 ''In Progress'')) = [] \<and>
   filter is_alert (snd (handleDeleteSession True False calendar_form ''s1'')) = []"
  by (simp add: updateCourseProgress_def handleDeleteSession_def backend_down_def)

text \<open>
  C9 (amended). When the backend rejects the mutation, the daily-log submission and the
  addition of a planned session log the error and show an alert, while the progress
  update and the deletion of a planned session only log the error to the console. In
  all four the state the handler holds is returned unchanged; after a manual progress
  update the detail modal is closed all the same and nothing else changes.
\<close>

theorem mutation_failure_handling:
  "(\<not> mutation_ok net \<longrightarrow>
      updateCourseProgress net st i p s
        = (st, [Http_patch_progress i p s, Console_error ''Error updating course progress:''])) \<and>
   (\<not> mutation_ok net \<and> showCourseDetail st = Some c \<longrightarrow>
      fst (manual_update net st p) = st\<lparr>showCourseDetail := None\<rparr> \<and>
      filter is_alert (snd (manual_update net st p)) = []) \<and>
   fst (handleSubmit False ts) = ts \<and>
   (filter valid_entry (selectedCourses ts) \<noteq> [] \<longrightarrow>
      (\<exists>body. snd (handleSubmit False ts)
         = [Http_post_log body, Console_error ''Error saving log:'', Alert ''ERROR SAVING LOG''])) \<and>
   fst (handleAddSession False cs) = cs \<and>
   (selectedCourse cs \<noteq> [] \<and> \<not> falsy_string (selectedDate_cal cs) \<longrightarrow>
      (\<exists>body. snd (handleAddSession False cs)
         = [Http_post_planned body, Console_error ''Error adding session:'',
            Alert ''ERROR PLANNING SESSION''])) \<and>
   handleDeleteSession True False cs sid
     = (cs, [Confirm ''DELETE THIS PLANNED SESSION?'', Http_delete_planned sid,
             Console_error ''Error deleting session:''])"
proof -
  have p1: "\<not> mutation_ok net \<longrightarrow>
      updateCourseProgress net st i p s
        = (st, [Http_patch_progress i p s, Console_error ''Error updating course progress:''])"
    by (simp add: updateCourseProgress_def)
  have p2: "\<not> mutation_ok net \<and> showCourseDetail st = Some c \<longrightarrow>
      fst (manual_update net st p) = st\<lparr>showCourseDetail := None\<rparr> \<and>
      filter is_alert (snd (manual_update net st p)) = []"
    by (simp add: manual_update_def onUpdate_def updateCourseProgress_def handleUpdate_def)
  have p3: "fst (handleSubmit False ts) = ts"
    by (simp add: handleSubmit_def Let_def)
  have p4: "filter valid_entry (selectedCourses ts) \<noteq> [] \<longrightarrow>
      (\<exists>body. snd (handleSubmit False ts)
         = [Http_post_log body, Console_error ''Error saving log:'', Alert ''ERROR SAVING LOG''])"
    by (cases "selectedCourses ts = []") (auto simp: handleSubmit_def Let_def)
  have p5: "fst (handleAddSession False cs) = cs"
    by (simp add: handleAddSession_def Let_def)
  have p6: "selectedCourse cs \<noteq> [] \<and> \<not> falsy_string (selectedDate_cal cs) \<longrightarrow>
      (\<exists>body. snd (handleAddSession False cs)
         = [Http_post_planned body, Console_error ''Error adding session:'',
            Alert ''ERROR PLANNING SESSION''])"
    by (simp add: handleAddSession_def Let_def)
  have p7: "handleDeleteSession True False cs sid
     = (cs, [Confirm ''DELETE THIS PLANNED SESSION?'', Http_delete_planned sid,
             Console_error ''Error deleting session:''])"
    by (simp add: handleDeleteSession_def)
  show ?thesis
    by (rule conjI [OF p1 conjI [OF p2 conjI [OF p3 conjI [OF p4 conjI [OF p5 conjI [OF p6 p7]]]]]])
qed

text \<open>C9 (amended) at a backend that rejects every request.\<close>

theorem mutation_failure_handling_witness:
  "\<not> mutation_ok backend_down \<and>
   updateCourseProgress backend_down app_snapshot ''c1'' 5 ''In Progress''
     = (app_snapshot, [Http_patch_progress ''c1'' 5 ''In Progress'',
                       Console_error ''Error updating course progress:'']) \<and>
   showCourseDetail app_snapshot = Some course_css \<and>
   fst (manual_update backend_down app_snapshot 70) = app_snapshot\<lparr>showCourseDetail := None\<rparr> \<and>
   filter valid_entry (selectedCourses (tracker_form [entry_c1_30])) \<noteq> [] \<and>
   (\<exists>body. handleSubmit False (tracker_form [entry_c1_30])
      = (tracker_form [entry_c1_30],
         [Http_post_log body, Console_error ''Error saving log:'', Alert ''ERROR SAVING LOG''])) \<and>
   selectedCourse calendar_form \<noteq> [] \<and> \<not> falsy_string (selectedDate_cal calendar_form) \<and>
   (\<exists>body. handleAddSession False calendar_form
      = (calendar_form,
         [Http_post_planned body, Console_error ''Error adding session:'',
          Alert ''ERROR PLANNING SESSION'']))"
proof -
  note h = mutation_failure_handling [of backend_down app_snapshot "''c1''" 5 "''In Progress''" course_css
      "tracker_form [entry_c1_30]" calendar_form "''s1''"]
  have a: "\<not> mutation_ok backend_down" by (simp add: backend_down_def)
  have b: "showCourseDetail app_snapshot = Some course_css" by (simp add: app_snapshot_def)
  have c: "filter valid_entry (selectedCourses (tracker_form [entry_c1_30])) \<noteq> []"
    by (simp add: tracker_form_def valid_entry_def entry_c1_30_def)
  have d: "selectedCourse calendar_form \<noteq> [] \<and> \<not> falsy_string (selectedDate_cal calendar_form)"
    by (simp add: calendar_form_def falsy_string_def)
  have e: "fst (manual_update backend_down app_snapshot 70)
      = app_snapshot\<lparr>showCourseDetail := None\<rparr>"
    using mutation_failure_handling [of backend_down app_snapshot "''c1''" 70 "''In Progress''" course_css
      "tracker_form [entry_c1_30]" calendar_form "''s1''"] a b by blast
  show ?thesis
    using h a b c d e by (metis prod.collapse)
qed

text \<open>
  C10. The courses handed to the daily-tracker form and the options of the plan-session
  dropdown are entries of the course list whose status is not \<open>'Completed'\<close>; each
  offered option is the id and title of such a course.
\<close>

theorem offered_courses_not_completed:
  "(\<forall>c \<in> set (tracker_courses cs). c \<in> set cs \<and> status c \<noteq> ''Completed'') \<and>
   (\<forall>opt \<in> set (tracker_options cs).
      \<exists>c \<in> set cs. status c \<noteq> ''Completed'' \<and> opt = (id_course c, title c)) \<and>
   (\<forall>opt \<in> set (calendar_options cs).
      \<exists>c \<in> set cs. status c \<noteq> ''Completed'' \<and> opt = (id_course c, title c))"
  by (auto simp: tracker_courses_def tracker_options_def calendar_options_def)

text \<open>C10 at the sample catalog: the completed course is not offered.\<close>

theorem offered_courses_not_completed_witness:
  "set (tracker_courses catalog) = {course_html, course_css} \<and>
   status course_html \<noteq> ''Completed'' \<and> status course_css \<noteq> ''Completed'' \<and>
   tracker_options catalog = [(''c1'', ''HTML Basics''), (''c2'', ''CSS Layout'')] \<and>
   calendar_options catalog = [(''c1'', ''HTML Basics''), (''c2'', ''CSS Layout'')]"
  using offered_courses_not_completed [of catalog]
  by (simp add: tracker_courses_def tracker_options_def calendar_options_def sample_defs)

section \<open>Calendar month grid: proofs\<close>

subsection \<open>The first day of a year\<close>

text \<open>Each year adds its length to the day on which it starts, so \<open>DayFromYear\<close> is
  strictly increasing.\<close>

lemma div_mod_decomp:
  fixes q r n :: int
  assumes "0 \<le> r" "r < n"
  shows "(r + q * n) div n = q \<and> (r + q * n) mod n = r"
  using assms by (simp add: div_pos_pos_trivial mod_pos_pos_trivial)

lemma div_step:
  fixes a n :: int
  assumes "0 < n"
  shows "(a + 1) div n = a div n + (if (a + 1) mod n = 0 then 1 else 0)"
proof -
  have a: "n * (a div n) + a mod n = a" by (rule mult_div_mod_eq)
  have r: "0 \<le> a mod n" "a mod n < n" using assms by simp_all
  show ?thesis
  proof (cases "a mod n = n - 1")
    case True
    have e: "0 + (a div n + 1) * n = a + 1" using a True by (simp add: algebra_simps)
    have "(0 + (a div n + 1) * n) div n = a div n + 1 \<and> (0 + (a div n + 1) * n) mod n = 0"
      using assms by (intro div_mod_decomp) simp_all
    then have "(a + 1) div n = a div n + 1 \<and> (a + 1) mod n = 0"
      by (simp only: e)
    then show ?thesis by simp
  next
    case False
    then have lt: "a mod n + 1 < n" using r by linarith
    have e: "(a mod n + 1) + (a div n) * n = a + 1" using a by (simp add: algebra_simps)
    have "((a mod n + 1) + (a div n) * n) div n = a div n \<and>
          ((a mod n + 1) + (a div n) * n) mod n = a mod n + 1"
      using r lt by (intro div_mod_decomp) simp_all
    then have "(a + 1) div n = a div n \<and> (a + 1) mod n = a mod n + 1"
      by (simp only: e)
    then show ?thesis using r by simp
  qed
qed

lemma mod_shift:
  fixes y :: int
  shows "(y - k * n) mod n = y mod n"
proof -
  have "(y - k * n) mod n = (y + (- k) * n) mod n" by simp
  also have "\<dots> = y mod n" by (rule mod_mult_self1)
  finally show ?thesis .
qed

lemma mod4: "(y - 1968) mod 4 = 0 \<longleftrightarrow> (y::int) mod 4 = 0"
  using mod_shift [of y 492 4] by simp

lemma mod100: "(y - 1900) mod 100 = 0 \<longleftrightarrow> (y::int) mod 100 = 0"
  using mod_shift [of y 19 100] by simp

lemma mod400: "(y - 1600) mod 400 = 0 \<longleftrightarrow> (y::int) mod 400 = 0"
  using mod_shift [of y 4 400] by simp

lemma mod_of_multiple:
  fixes y :: int
  assumes "y mod a = 0" "b dvd a"
  shows "y mod b = 0"
proof -
  from assms(1) have "a dvd y" by (simp add: dvd_eq_mod_eq_0)
  with assms(2) have "b dvd y" by (rule dvd_trans)
  then show ?thesis by (simp add: dvd_eq_mod_eq_0)
qed

lemma mod100_4: "(y::int) mod 100 = 0 \<Longrightarrow> y mod 4 = 0"
  by (rule mod_of_multiple [of y 100 4]) simp_all

lemma mod400_100: "(y::int) mod 400 = 0 \<Longrightarrow> y mod 100 = 0"
  by (rule mod_of_multiple [of y 400 100]) simp_all

lemma DayFromYear_Suc: "DayFromYear (y + 1) = DayFromYear y + DaysInYear y"
proof -
  have a: "(y + 1 - 1969) div 4 = (y - 1969) div 4 + (if y mod 4 = 0 then 1 else 0)"
    using div_step [of 4 "y - 1969"] mod4 [of y] by (simp add: algebra_simps)
  have b: "(y + 1 - 1901) div 100 = (y - 1901) div 100 + (if y mod 100 = 0 then 1 else 0)"
    using div_step [of 100 "y - 1901"] mod100 [of y] by (simp add: algebra_simps)
  have c: "(y + 1 - 1601) div 400 = (y - 1601) div 400 + (if y mod 400 = 0 then 1 else 0)"
    using div_step [of 400 "y - 1601"] mod400 [of y] by (simp add: algebra_simps)
  show ?thesis
    unfolding DayFromYear_def DaysInYear_def a b c
    using mod100_4 [of y] mod400_100 [of y] by auto
qed

lemma DaysInYear_bounds: "365 \<le> DaysInYear y \<and> DaysInYear y \<le> 366"
  by (simp add: DaysInYear_def)

lemma DayFromYear_pred: "DayFromYear (y - 1) = DayFromYear y - DaysInYear (y - 1)"
  using DayFromYear_Suc [of "y - 1"] by simp

lemma DayFromYear_less_Suc: "DayFromYear y < DayFromYear (y + 1)"
  using DayFromYear_Suc [of y] DaysInYear_bounds [of y] by linarith

lemma DayFromYear_mono: "y \<le> z \<Longrightarrow> DayFromYear y \<le> DayFromYear z"
proof (induction z rule: int_ge_induct)
  case base
  show ?case by simp
next
  case (step i)
  then show ?case using DayFromYear_less_Suc [of i] by linarith
qed

lemma DayFromYear_strict_mono: "y < z \<Longrightarrow> DayFromYear y < DayFromYear z"
  using DayFromYear_mono [of "y + 1" z] DayFromYear_less_Suc [of y] by linarith

text \<open>The search for the year ends: above the day the start of the year comes down to
  it, and once at or below the day it moves up to it.\<close>

termination year_search
proof (relation "measure (\<lambda>(d, y). nat (if DayFromYear y > d then 366 + (DayFromYear y - d)
                                           else d - DayFromYear y))", goal_cases)
  case 1
  show ?case by simp
next
  case (2 d y)
  then show ?case
    using DayFromYear_pred [of y] DaysInYear_bounds [of "y - 1"] by auto
next
  case (3 d y)
  then show ?case
    using DayFromYear_Suc [of y] DaysInYear_bounds [of y] by auto
qed

subsection \<open>The year of a day\<close>

text \<open>\<open>YearFromDay\<close> is the year required by the standard: the largest year that starts
  on or before the day.\<close>

lemma year_search_bounds:
  "DayFromYear (year_search d y) \<le> d \<and> d < DayFromYear (year_search d y + 1)"
proof (induction d y rule: year_search.induct)
  case (1 d y)
  show ?case
  proof (cases "DayFromYear y > d")
    case True
    with "1.IH"(1) show ?thesis by (subst (1 2) year_search.simps) simp
  next
    case False
    show ?thesis
    proof (cases "DayFromYear (y + 1) \<le> d")
      case True
      with False "1.IH"(2) show ?thesis by (subst (1 2) year_search.simps) simp
    next
      case F2: False
      with False show ?thesis by (subst (1 2) year_search.simps) simp
    qed
  qed
qed

lemma year_unique:
  assumes "DayFromYear y \<le> d" "d < DayFromYear (y + 1)"
    and "DayFromYear z \<le> d" "d < DayFromYear (z + 1)"
  shows "y = z"
proof (rule ccontr)
  assume "y \<noteq> z"
  then consider "y + 1 \<le> z" | "z + 1 \<le> y" by linarith
  then show False
  proof cases
    case 1
    then have "DayFromYear (y + 1) \<le> DayFromYear z" by (rule DayFromYear_mono)
    with assms show False by linarith
  next
    case 2
    then have "DayFromYear (z + 1) \<le> DayFromYear y" by (rule DayFromYear_mono)
    with assms show False by linarith
  qed
qed

lemma YearFromDay_bounds:
  "DayFromYear (YearFromDay d) \<le> d \<and> d < DayFromYear (YearFromDay d + 1)"
  unfolding YearFromDay_def by (rule year_search_bounds)

lemma YearFromDay_largest:
  "DayFromYear (YearFromDay d) \<le> d \<and> (\<forall>y. DayFromYear y \<le> d \<longrightarrow> y \<le> YearFromDay d)"
proof (intro conjI allI impI)
  show "DayFromYear (YearFromDay d) \<le> d" using YearFromDay_bounds by blast
next
  fix y assume h: "DayFromYear y \<le> d"
  show "y \<le> YearFromDay d"
  proof (rule ccontr)
    assume "\<not> y \<le> YearFromDay d"
    then have "YearFromDay d + 1 \<le> y" by linarith
    then have "DayFromYear (YearFromDay d + 1) \<le> DayFromYear y" by (rule DayFromYear_mono)
    with h YearFromDay_bounds [of d] show False by linarith
  qed
qed

lemma YearFromDay_eqI:
  "DayFromYear y \<le> d \<Longrightarrow> d < DayFromYear y + DaysInYear y \<Longrightarrow> YearFromDay d = y"
  using year_unique [of "YearFromDay d" d y] YearFromDay_bounds [of d] DayFromYear_Suc [of y]
  by simp

subsection \<open>Counting days agrees with the closed formulas\<close>

lemma year_length_eq: "year_length y = DaysInYear y"
  using mod100_4 [of y] mod400_100 [of y]
  by (auto simp: year_length_def is_leap_year_def DaysInYear_def)

lemma InLeapYear_eq: "InLeapYear y = (if is_leap_year y then 1 else 0)"
  using year_length_eq [of y] by (simp add: InLeapYear_def year_length_def split: if_splits)

lemma days_before_year_eq: "days_before_year y = DayFromYear y"
proof (cases "1970 \<le> y")
  case True
  then show ?thesis
  proof (induction y rule: int_ge_induct)
    case base
    show ?case by (simp add: days_before_year_def DayFromYear_def)
  next
    case (step i)
    have "[1970..i] = [1970..i - 1] @ [i]" using step.hyps by (simp add: upto_rec2)
    then have "days_before_year (i + 1) = days_before_year i + year_length i"
      using step.hyps by (simp add: days_before_year_def)
    then show ?case using step.IH step.hyps DayFromYear_Suc [of i] by (simp add: year_length_eq)
  qed
next
  case False
  then have "y \<le> 1969" by simp
  then show ?thesis
  proof (induction y rule: int_le_induct)
    case base
    show ?case by (simp add: days_before_year_def DayFromYear_def year_length_def is_leap_year_def)
  next
    case (step i)
    have "[i - 1..1969] = (i - 1) # [i..1969]" using step.hyps by (simp add: upto_rec1)
    then have "days_before_year (i - 1) = days_before_year i - year_length (i - 1)"
      using step.hyps by (simp add: days_before_year_def)
    then show ?case using step.IH step.hyps DayFromYear_pred [of i] by (simp add: year_length_eq)
  qed
qed

lemma month_cases:
  fixes m :: int
  assumes "0 \<le> m" "m \<le> 11"
  obtains "m = 0" | "m = 1" | "m = 2" | "m = 3" | "m = 4" | "m = 5"
    | "m = 6" | "m = 7" | "m = 8" | "m = 9" | "m = 10" | "m = 11"
proof -
  have "m = 0 \<or> m = 1 \<or> m = 2 \<or> m = 3 \<or> m = 4 \<or> m = 5
      \<or> m = 6 \<or> m = 7 \<or> m = 8 \<or> m = 9 \<or> m = 10 \<or> m = 11"
    using assms by arith
  then show thesis using that by blast
qed

lemma month_start_eq:
  assumes "0 \<le> m" "m \<le> 11"
  shows "sum_list (map (days_in_month y) [0..m - 1]) = month_start m (InLeapYear y)"
  using assms
  by (cases m rule: month_cases)
     (simp_all add: month_start_def days_in_month_def InLeapYear_eq upto_rec1)

subsection \<open>From a calendar date to its day number and back\<close>

lemma day_number_eq:
  assumes "0 \<le> m" "m \<le> 11"
  shows "day_number y m d = DayFromYear y + month_start m (InLeapYear y) + d - 1"
  using month_start_eq [OF assms, of y] by (simp add: day_number_def days_before_year_eq)

lemma DaysInYear_leap: "DaysInYear y = 365 + InLeapYear y"
  by (simp add: InLeapYear_def DaysInYear_def)

lemma InLeapYear_01: "InLeapYear y = 0 \<or> InLeapYear y = 1"
  by (simp add: InLeapYear_def)

lemma day_in_year_range:
  assumes "0 \<le> m" "m \<le> 11" "1 \<le> d" "d \<le> days_in_month y m"
  shows "0 \<le> month_start m (InLeapYear y) + d - 1 \<and>
         month_start m (InLeapYear y) + d - 1 < DaysInYear y"
  using assms InLeapYear_01 [of y]
  by (cases m rule: month_cases)
     (auto simp: month_start_def days_in_month_def InLeapYear_eq DaysInYear_leap
       split: if_splits)

lemma YearFromDay_day_number:
  assumes "0 \<le> m" "m \<le> 11" "1 \<le> d" "d \<le> days_in_month y m"
  shows "YearFromDay (day_number y m d) = y"
proof (rule YearFromDay_eqI)
  show "DayFromYear y \<le> day_number y m d"
    using day_in_year_range [OF assms] by (simp add: day_number_eq assms)
  show "day_number y m d < DayFromYear y + DaysInYear y"
    using day_in_year_range [OF assms] by (simp add: day_number_eq assms)
qed

lemma DayWithinYear_day_number:
  assumes "0 \<le> m" "m \<le> 11" "1 \<le> d" "d \<le> days_in_month y m"
  shows "DayWithinYear (day_number y m d) = month_start m (InLeapYear y) + d - 1"
  unfolding DayWithinYear_def YearFromDay_day_number [OF assms]
  by (simp add: day_number_eq assms)

lemma MonthFromDay_day_number:
  assumes "0 \<le> m" "m \<le> 11" "1 \<le> d" "d \<le> days_in_month y m"
  shows "MonthFromDay (day_number y m d) = m"
  unfolding MonthFromDay_def DayWithinYear_day_number [OF assms] YearFromDay_day_number [OF assms]
  using assms InLeapYear_01 [of y]
  by (cases m rule: month_cases)
     (auto simp: month_start_def days_in_month_def InLeapYear_eq Let_def split: if_splits)

lemma DateFromDay_day_number:
  assumes "0 \<le> m" "m \<le> 11" "1 \<le> d" "d \<le> days_in_month y m"
  shows "DateFromDay (day_number y m d) = d"
  unfolding DateFromDay_def DayWithinYear_day_number [OF assms] YearFromDay_day_number [OF assms]
    MonthFromDay_day_number [OF assms]
  using assms(1,2)
  by (cases m rule: month_cases) (simp_all add: month_start_def Let_def)

subsection \<open>The two dates built by \<open>getDaysInMonth\<close>\<close>

lemma days_in_month_bounds: "28 \<le> days_in_month y m \<and> days_in_month y m \<le> 31"
  by (simp add: days_in_month_def)

lemma div_bounds:
  fixes a n :: int
  assumes "0 < n"
  shows "n * (a div n) \<le> a \<and> a < n * (a div n) + n"
proof -
  have "n * (a div n) + a mod n = a" by (rule mult_div_mod_eq)
  moreover have "0 \<le> a mod n" "a mod n < n" using assms by simp_all
  ultimately show ?thesis by linarith
qed

lemma DayFromYear_range:
  assumes "- 200000 \<le> y" "y \<le> 200000"
  shows "- 99000000 \<le> DayFromYear y \<and> DayFromYear y \<le> 99000000"
proof -
  define q4 where "q4 = (y - 1969) div 4"
  define q100 where "q100 = (y - 1901) div 100"
  define q400 where "q400 = (y - 1601) div 400"
  have a: "4 * q4 \<le> y - 1969 \<and> y - 1969 < 4 * q4 + 4"
    unfolding q4_def by (rule div_bounds) simp
  have b: "100 * q100 \<le> y - 1901 \<and> y - 1901 < 100 * q100 + 100"
    unfolding q100_def by (rule div_bounds) simp
  have c: "400 * q400 \<le> y - 1601 \<and> y - 1601 < 400 * q400 + 400"
    unfolding q400_def by (rule div_bounds) simp
  have "DayFromYear y = 365 * (y - 1970) + q4 - q100 + q400"
    by (simp add: DayFromYear_def q4_def q100_def q400_def)
  then show ?thesis using assms a b c by auto
qed

lemma month_start_range:
  assumes "0 \<le> m" "m \<le> 11"
  shows "0 \<le> month_start m (InLeapYear y) \<and> month_start m (InLeapYear y) \<le> 335"
  using assms InLeapYear_01 [of y]
  by (cases m rule: month_cases) (auto simp: month_start_def)

lemma MakeDay_first:
  assumes "0 \<le> m" "m \<le> 11"
  shows "MakeDay y m 1 = day_number y m 1"
proof -
  have "m div 12 = 0" "m mod 12 = m" using assms by simp_all
  then show ?thesis by (simp add: MakeDay_def day_number_eq assms)
qed

lemma MakeDay_last:
  assumes "0 \<le> m" "m \<le> 11"
  shows "MakeDay y (m + 1) 0 = day_number y m (days_in_month y m)"
proof (cases "m = 11")
  case True
  have "MakeDay y 12 0 = DayFromYear (y + 1) - 1"
    by (simp add: MakeDay_def month_start_def)
  also have "\<dots> = DayFromYear y + DaysInYear y - 1"
    by (simp add: DayFromYear_Suc)
  also have "\<dots> = day_number y 11 (days_in_month y 11)"
    by (simp add: day_number_eq month_start_def days_in_month_def DaysInYear_leap)
  finally show ?thesis using True by simp
next
  case False
  with assms have m: "0 \<le> m" "m \<le> 10" by simp_all
  then have dm: "(m + 1) div 12 = 0" "(m + 1) mod 12 = m + 1" by simp_all
  have step: "month_start (m + 1) (InLeapYear y) = month_start m (InLeapYear y) + days_in_month y m"
    using assms False
    by (cases m rule: month_cases)
       (simp_all add: month_start_def days_in_month_def InLeapYear_eq)
  show ?thesis
    by (simp add: MakeDay_def dm step day_number_eq assms)
qed

lemma TimeClip_day_number:
  assumes "- 200000 \<le> y" "y \<le> 200000" "0 \<le> m" "m \<le> 11" "1 \<le> d" "d \<le> days_in_month y m"
  shows "TimeClip (day_number y m d) = Some (day_number y m d)"
proof -
  have "- 99000000 \<le> DayFromYear y \<and> DayFromYear y \<le> 99000000"
    using assms by (intro DayFromYear_range) simp_all
  moreover have "0 \<le> month_start m (InLeapYear y) \<and> month_start m (InLeapYear y) \<le> 335"
    using assms by (intro month_start_range)
  moreover have "d \<le> 31" using assms days_in_month_bounds [of y m] by linarith
  ultimately show ?thesis
    using assms by (auto simp: TimeClip_def day_number_eq)
qed

lemma getDaysInMonth_general:
  assumes "- 190000 \<le> y" "y \<le> 190000" "0 \<le> m" "m \<le> 11" "1 \<le> d" "d \<le> days_in_month y m"
  shows "getDaysInMonth (Some (day_number y m d))
           = (Some (days_in_month (MakeFullYear y) m), Some (weekday_of (MakeFullYear y) m 1))"
proof -
  define yr where "yr = MakeFullYear y"
  have civ: "0 \<le> m" "m \<le> 11" "1 \<le> d" "d \<le> days_in_month y m" using assms by simp_all
  have rng: "- 200000 \<le> yr" "yr \<le> 200000"
    using assms by (simp_all add: yr_def MakeFullYear_def)
  have one: "(1::int) \<le> 1" "1 \<le> days_in_month yr m"
    using days_in_month_bounds [of yr m] by simp_all
  have lst: "1 \<le> days_in_month yr m" "days_in_month yr m \<le> days_in_month yr m"
    using days_in_month_bounds [of yr m] by simp_all
  have yr_eq: "getFullYear (Some (day_number y m d)) = Some y"
    by (simp add: getFullYear_def YearFromDay_day_number [OF civ])
  have mo: "getMonth (Some (day_number y m d)) = Some m"
    by (simp add: getMonth_def MonthFromDay_day_number [OF civ])
  have first: "new_Date (Some y) (Some m) 1 = Some (day_number yr m 1)"
    using TimeClip_day_number [OF rng assms(3,4) one]
    by (simp add: new_Date_def MakeDay_first [OF assms(3,4)] yr_def)
  have last: "new_Date (Some y) (Some (m + 1)) 0 = Some (day_number yr m (days_in_month yr m))"
    using TimeClip_day_number [OF rng assms(3,4) lst]
    by (simp add: new_Date_def MakeDay_last [OF assms(3,4)] yr_def)
  have gd: "getDate (Some (day_number yr m (days_in_month yr m))) = Some (days_in_month yr m)"
    by (simp add: getDate_def DateFromDay_day_number [OF assms(3,4) lst])
  have wd: "getDay (Some (day_number yr m 1)) = Some (weekday_of yr m 1)"
    by (simp add: getDay_def WeekDay_def weekday_of_def add.commute)
  show ?thesis
    unfolding yr_def [symmetric]
    by (simp add: getDaysInMonth_def yr_eq mo first last gd wd)
qed

subsection \<open>Date strings\<close>

lemma length_digits_small: "n < 10 \<Longrightarrow> length (digits n) = 1"
  by (subst digits.simps) simp

lemma length_digits_step: "\<not> n < 10 \<Longrightarrow> length (digits n) = Suc (length (digits (n div 10)))"
  by (subst digits.simps) simp

lemma length_digits_2: "10 \<le> n \<Longrightarrow> n < 100 \<Longrightarrow> length (digits n) = 2"
  by (simp add: length_digits_step length_digits_small)

lemma length_digits_3:
  assumes "100 \<le> n" "n < 1000"
  shows "length (digits n) = 3"
proof -
  have "10 \<le> n div 10" "n div 10 < 100" "\<not> n < 10" using assms by simp_all
  then show ?thesis using length_digits_step [of n] length_digits_2 [of "n div 10"] by simp
qed

lemma length_digits_4:
  assumes "1000 \<le> n" "n < 10000"
  shows "length (digits n) = 4"
proof -
  have "100 \<le> n div 10" "n div 10 < 1000" "\<not> n < 10" using assms by simp_all
  then show ?thesis using length_digits_step [of n] length_digits_3 [of "n div 10"] by simp
qed

lemma length_String_year:
  assumes "1000 \<le> y" "y \<le> 9999"
  shows "length (String_of_int y) = 4"
  using assms by (simp add: String_of_int_def length_digits_4)

lemma length_zero_pad_2:
  assumes "0 \<le> i" "i \<le> 99"
  shows "length (zero_pad 2 (String_of_int i)) = 2"
proof (cases "i < 10")
  case True
  with assms have "length (String_of_int i) = 1"
    by (simp add: String_of_int_def length_digits_small)
  then show ?thesis by (simp add: zero_pad_def)
next
  case False
  with assms have "length (String_of_int i) = 2"
    by (simp add: String_of_int_def length_digits_2)
  then show ?thesis by (simp add: zero_pad_def)
qed

lemma dateStr_iso:
  assumes "1000 \<le> y" "y \<le> 9999"
  shows "dateStr y m d = iso_date y m d"
  using length_String_year [OF assms]
  by (simp add: dateStr_def iso_date_def padStart_def zero_pad_def)

lemma length_iso_date:
  assumes "1000 \<le> y" "y \<le> 9999" "0 \<le> m" "m \<le> 11" "1 \<le> d" "d \<le> 31"
  shows "length (iso_date y m d) = 10 \<and> iso_date y m d ! 4 = CHR ''-'' \<and>
         iso_date y m d ! 7 = CHR ''-''"
proof -
  have a: "length (zero_pad 4 (String_of_int y)) = 4"
    using length_String_year [OF assms(1,2)] by (simp add: zero_pad_def)
  have b: "length (zero_pad 2 (String_of_int (m + 1))) = 2"
    using assms by (intro length_zero_pad_2) simp_all
  have c: "length (zero_pad 2 (String_of_int d)) = 2"
    using assms by (intro length_zero_pad_2) simp_all
  show ?thesis
    using a b c by (simp add: iso_date_def nth_append)
qed

subsection \<open>The cells of the grid\<close>

lemma map_day_index: "map (\<lambda>i. f (int i + 1)) [0..<k] = map f [1..int k]"
proof (induction k)
  case 0
  show ?case by simp
next
  case (Suc k)
  have "[1..int (Suc k)] = [1..int k] @ [int k + 1]"
    by (simp add: upto_rec2)
  with Suc show ?case by simp
qed

lemma weekday_of_range: "0 \<le> weekday_of y m d \<and> weekday_of y m d \<le> 6"
  by (simp add: weekday_of_def)

lemma calendar_cells_general:
  assumes "- 190000 \<le> y" "y \<le> 190000" "0 \<le> m" "m \<le> 11" "1 \<le> d" "d \<le> days_in_month y m"
  shows "calendar_cells (Some (day_number y m d)) logs planned =
     Inr (map Empty_cell [0..<nat (weekday_of (MakeFullYear y) m 1)] @
          map (\<lambda>day. Day_cell day (dateStr y m day)
                       (find (\<lambda>l. date l = dateStr y m day) logs)
                       (filter (\<lambda>p. planned_date p = dateStr y m day) planned))
            [1..days_in_month (MakeFullYear y) m])"
proof -
  define yr where "yr = MakeFullYear y"
  have civ: "0 \<le> m" "m \<le> 11" "1 \<le> d" "d \<le> days_in_month y m" using assms by simp_all
  have yr_eq: "getFullYear (Some (day_number y m d)) = Some y"
    by (simp add: getFullYear_def YearFromDay_day_number [OF civ])
  have mo: "getMonth (Some (day_number y m d)) = Some m"
    by (simp add: getMonth_def MonthFromDay_day_number [OF civ])
  have blanks: "Array_indices (Some (weekday_of yr m 1)) = Inr [0..<nat (weekday_of yr m 1)]"
    using weekday_of_range [of yr m 1] by (simp add: Array_indices_def)
  have days: "Array_indices (Some (days_in_month yr m)) = Inr [0..<nat (days_in_month yr m)]"
    using days_in_month_bounds [of yr m] by (simp add: Array_indices_def)
  define F where "F = (\<lambda>day. Day_cell day (dateStr y m day)
                       (find (\<lambda>l. date l = dateStr y m day) logs)
                       (filter (\<lambda>p. planned_date p = dateStr y m day) planned))"
  have cellf: "day_cell y m logs planned i = F (int i + 1)" for i
    by (simp add: F_def day_cell_def getActivityForDate_def Let_def)
  have idx: "int (nat (days_in_month yr m)) = days_in_month yr m"
    using days_in_month_bounds [of yr m] by simp
  have "map (day_cell y m logs planned) [0..<nat (days_in_month yr m)]
      = map (\<lambda>i. F (int i + 1)) [0..<nat (days_in_month yr m)]"
    by (simp add: cellf)
  also have "\<dots> = map F [1..int (nat (days_in_month yr m))]"
    by (rule map_day_index)
  finally have cells: "map (day_cell y m logs planned) [0..<nat (days_in_month yr m)]
      = map F [1..days_in_month yr m]"
    by (simp only: idx)
  show ?thesis
    unfolding calendar_cells_def getDaysInMonth_general [OF assms] yr_def [symmetric]
    by (simp add: blanks days yr_eq mo cells F_def)
qed

lemma MakeFullYear_id: "1000 \<le> y \<Longrightarrow> MakeFullYear y = y"
  by (simp add: MakeFullYear_def)

lemma find_date_facts:
  "(\<forall>l. find (\<lambda>x. date x = k) logs = Some l \<longrightarrow> l \<in> set logs \<and> date l = k) \<and>
   (find (\<lambda>x. date x = k) logs = None \<longleftrightarrow> (\<forall>l \<in> set logs. date l \<noteq> k)) \<and>
   (distinct (map date logs) \<longrightarrow>
      (\<forall>l \<in> set logs. date l = k \<longrightarrow> find (\<lambda>x. date x = k) logs = Some l))"
proof (intro conjI allI impI ballI)
  fix l assume "find (\<lambda>x. date x = k) logs = Some l"
  then show "l \<in> set logs" "date l = k"
    by (auto simp: find_Some_iff)
next
  show "find (\<lambda>x. date x = k) logs = None \<longleftrightarrow> (\<forall>l \<in> set logs. date l \<noteq> k)"
    by (auto simp: find_None_iff)
next
  fix l assume "distinct (map date logs)" "l \<in> set logs" "date l = k"
  then show "find (\<lambda>x. date x = k) logs = Some l"
  proof (induction logs)
    case Nil
    then show ?case by simp
  next
    case (Cons a logs)
    then show ?case by (auto simp: image_iff)
  qed
qed

lemma weekday_of_eval:
  "0 \<le> m \<Longrightarrow> m \<le> 11 \<Longrightarrow>
     weekday_of y m d = (4 + (DayFromYear y + month_start m (InLeapYear y) + d - 1)) mod 7"
  by (simp add: weekday_of_def day_number_eq)

lemma upto_from_1: "1 \<le> n \<Longrightarrow> [1..n] = 1 # [2..n]"
  by (simp add: upto_rec1)

text \<open>
  C2, as stated, fails for a year below 100. When the calendar shows December of the
  year 99, \<open>getDaysInMonth\<close> hands the year 99 to the \<open>Date\<close> constructor, which reads it
  as 1999: the grid gets 3 leading blank cells, the weekday of 1 December 1999, while
  1 December 99 has weekday index 2; and the key of the first day cell is \<open>99-12-01\<close>,
  which is not the zero-padded date.
\<close>

theorem calendar_grid_two_digit_year_counterexample:
  "getDaysInMonth (Some (day_number 99 11 1)) = (Some 31, Some 3) \<and>
   weekday_of 99 11 1 = 2 \<and>
   map_sum id (take 4) (calendar_cells (Some (day_number 99 11 1)) [] [])
     = Inr [Empty_cell 0, Empty_cell 1, Empty_cell 2, Day_cell 1 ''99-12-01'' None []] \<and>
   iso_date 99 11 1 = ''0099-12-01''"
proof -
  have d: "days_in_month 99 11 = 31" "days_in_month 1999 11 = 31"
    by (simp_all add: days_in_month_def)
  have ty: "MakeFullYear 99 = 1999" by (simp add: MakeFullYear_def)
  have w1: "weekday_of 1999 11 1 = 3"
    by (simp add: weekday_of_eval DayFromYear_def month_start_def InLeapYear_def DaysInYear_def)
  have w2: "weekday_of 99 11 1 = 2"
    by (simp add: weekday_of_eval DayFromYear_def month_start_def InLeapYear_def DaysInYear_def)
  have a: "getDaysInMonth (Some (day_number 99 11 1)) = (Some 31, Some 3)"
    using getDaysInMonth_general [of 99 11 1] by (simp add: d ty w1)
  have k: "dateStr 99 11 1 = ''99-12-01''"
    by (simp add: dateStr_def String_of_int_def padStart_def digits.simps digit_char_def)
  have i: "iso_date 99 11 1 = ''0099-12-01''"
    by (simp add: iso_date_def String_of_int_def zero_pad_def digits.simps digit_char_def
        numeral_2_eq_2)
  have c: "map_sum id (take 4) (calendar_cells (Some (day_number 99 11 1)) [] [])
     = Inr [Empty_cell 0, Empty_cell 1, Empty_cell 2, Day_cell 1 ''99-12-01'' None []]"
    using calendar_cells_general [of 99 11 1 "[]" "[]"]
    by (simp add: d ty w1 k upto_from_1 upt_conv_Cons)
  show ?thesis using a w2 c i by simp
qed

text \<open>
  C2 (amended). For every year from 1000 to 9999 and every zero-based month, with the
  calendar showing any day \<open>d\<close> of that month: \<open>getDaysInMonth\<close> returns the number of days
  of the month and the weekday index (0 = Sunday) of its first day; the grid consists of
  that many blank cells followed by the day cells numbered 1 to the number of days, and
  nothing after them; each day cell is keyed by the zero-padded \<open>YYYY-MM-DD\<close> string of
  its date (ten characters, hyphens after the year and the month) and carries the first
  log whose date equals that string, which is the only one when logs have distinct dates
  and is absent exactly when no log has that date, and all planned sessions whose date
  equals that string.
\<close>

theorem calendar_grid_correct:
  assumes "1000 \<le> y" "y \<le> 9999" "0 \<le> m" "m \<le> 11" "1 \<le> d" "d \<le> days_in_month y m"
  shows "getDaysInMonth (Some (day_number y m d))
           = (Some (days_in_month y m), Some (weekday_of y m 1)) \<and>
         calendar_cells (Some (day_number y m d)) logs planned =
           Inr (map Empty_cell [0..<nat (weekday_of y m 1)] @
                map (\<lambda>day. Day_cell day (iso_date y m day)
                       (find (\<lambda>l. date l = iso_date y m day) logs)
                       (filter (\<lambda>p. planned_date p = iso_date y m day) planned))
                  [1..days_in_month y m]) \<and>
         (\<forall>day \<in> set [1..days_in_month y m].
            length (iso_date y m day) = 10 \<and> iso_date y m day ! 4 = CHR ''-'' \<and>
            iso_date y m day ! 7 = CHR ''-'') \<and>
         (\<forall>k l. find (\<lambda>x. date x = k) logs = Some l \<longrightarrow> l \<in> set logs \<and> date l = k) \<and>
         (\<forall>k. find (\<lambda>x. date x = k) logs = None \<longleftrightarrow> (\<forall>l \<in> set logs. date l \<noteq> k)) \<and>
         (distinct (map date logs) \<longrightarrow>
            (\<forall>l \<in> set logs. find (\<lambda>x. date x = date l) logs = Some l))"
proof -
  have rng: "- 190000 \<le> y" "y \<le> 190000" using assms by simp_all
  have ty: "MakeFullYear y = y" using assms by (simp add: MakeFullYear_id)
  have p1: "getDaysInMonth (Some (day_number y m d))
           = (Some (days_in_month y m), Some (weekday_of y m 1))"
    using getDaysInMonth_general [OF rng assms(3-6)] by (simp add: ty)
  have p2: "calendar_cells (Some (day_number y m d)) logs planned =
           Inr (map Empty_cell [0..<nat (weekday_of y m 1)] @
                map (\<lambda>day. Day_cell day (iso_date y m day)
                       (find (\<lambda>l. date l = iso_date y m day) logs)
                       (filter (\<lambda>p. planned_date p = iso_date y m day) planned))
                  [1..days_in_month y m])"
    using calendar_cells_general [OF rng assms(3-6), of logs planned]
    by (simp add: ty dateStr_iso [OF assms(1,2)])
  have p3: "\<forall>day \<in> set [1..days_in_month y m].
            length (iso_date y m day) = 10 \<and> iso_date y m day ! 4 = CHR ''-'' \<and>
            iso_date y m day ! 7 = CHR ''-''"
  proof
    fix day assume "day \<in> set [1..days_in_month y m]"
    then have "1 \<le> day" "day \<le> 31" using days_in_month_bounds [of y m] by simp_all
    then show "length (iso_date y m day) = 10 \<and> iso_date y m day ! 4 = CHR ''-'' \<and>
            iso_date y m day ! 7 = CHR ''-''"
      by (intro length_iso_date assms(1-4))
  qed
  have p4: "\<forall>k l. find (\<lambda>x. date x = k) logs = Some l \<longrightarrow> l \<in> set logs \<and> date l = k"
    using find_date_facts [of _ logs] by blast
  have p5: "\<forall>k. find (\<lambda>x. date x = k) logs = None \<longleftrightarrow> (\<forall>l \<in> set logs. date l \<noteq> k)"
    using find_date_facts [of _ logs] by blast
  have p6: "distinct (map date logs) \<longrightarrow>
            (\<forall>l \<in> set logs. find (\<lambda>x. date x = date l) logs = Some l)"
    using find_date_facts [of _ logs] by blast
  show ?thesis
    by (rule conjI [OF p1 conjI [OF p2 conjI [OF p3 conjI [OF p4 conjI [OF p5 p6]]]]])
qed

text \<open>C2 (amended) at May 2024, a month of 31 days that starts on a Wednesday.\<close>

theorem calendar_grid_correct_witness:
  "(1000::int) \<le> 2024 \<and> (2024::int) \<le> 9999 \<and> (0::int) \<le> 4 \<and> (4::int) \<le> 11 \<and>
   (1::int) \<le> 15 \<and> 15 \<le> days_in_month 2024 4 \<and>
   getDaysInMonth (Some (day_number 2024 4 15)) = (Some 31, Some 3) \<and>
   map_sum id (\<lambda>cells. (length cells, take 4 cells))
     (calendar_cells (Some (day_number 2024 4 15)) [log_may1, log_may3] [session_a, session_b])
     = Inr (34, [Empty_cell 0, Empty_cell 1, Empty_cell 2,
                 Day_cell 1 ''2024-05-01'' (Some log_may1) [session_a, session_b]])"
proof -
  have d: "days_in_month 2024 4 = 31" by (simp add: days_in_month_def)
  have h: "(1000::int) \<le> 2024" "(2024::int) \<le> 9999" "(0::int) \<le> 4" "(4::int) \<le> 11"
    "(1::int) \<le> 15" "15 \<le> days_in_month 2024 4"
    by (simp_all add: d)
  have w: "weekday_of 2024 4 1 = 3"
    by (simp add: weekday_of_eval DayFromYear_def month_start_def InLeapYear_def DaysInYear_def)
  have i: "iso_date 2024 4 1 = ''2024-05-01''"
    by (simp add: iso_date_def String_of_int_def zero_pad_def digits.simps digit_char_def)
  note t = calendar_grid_correct [OF h, of "[log_may1, log_may3]" "[session_a, session_b]"]
  have a: "getDaysInMonth (Some (day_number 2024 4 15)) = (Some 31, Some 3)"
    using t [THEN conjunct1] by (simp add: d w)
  have c: "map_sum id (\<lambda>cells. (length cells, take 4 cells))
     (calendar_cells (Some (day_number 2024 4 15)) [log_may1, log_may3] [session_a, session_b])
     = Inr (34, [Empty_cell 0, Empty_cell 1, Empty_cell 2,
                 Day_cell 1 ''2024-05-01'' (Some log_may1) [session_a, session_b]])"
    using t [THEN conjunct2, THEN conjunct1]
    by (simp add: d w i upto_from_1 upt_conv_Cons log_may1_def log_may3_def session_a_def
        session_b_def)
  show ?thesis using h a c by simp
qed

section \<open>Streak: proofs\<close>

text \<open>The count from day \<open>d\<close> is \<open>n\<close> exactly when the \<open>n\<close> days ending at \<open>d\<close> are logged
  and the day before them is not.\<close>

lemma consecutive_days_back_char:
  "consecutive_days_back logged d = n \<longleftrightarrow>
     (\<forall>k < n. d - int k \<in> set logged) \<and> d - int n \<notin> set logged"
proof (induction logged d arbitrary: n rule: consecutive_days_back.induct)
  case (1 logged d)
  show ?case
  proof (cases "d \<in> set logged")
    case False
    then have "consecutive_days_back logged d = 0"
      by (subst consecutive_days_back.simps) simp
    moreover have "((\<forall>k < n. d - int k \<in> set logged) \<and> d - int n \<notin> set logged) \<longleftrightarrow> n = 0"
    proof
      assume h: "(\<forall>k < n. d - int k \<in> set logged) \<and> d - int n \<notin> set logged"
      show "n = 0"
      proof (rule ccontr)
        assume "n \<noteq> 0"
        then have "0 < n" by simp
        with h have "d - int 0 \<in> set logged" by blast
        with False show False by simp
      qed
    next
      assume "n = 0"
      with False show "(\<forall>k < n. d - int k \<in> set logged) \<and> d - int n \<notin> set logged" by simp
    qed
    ultimately show ?thesis by auto
  next
    case True
    then have e: "consecutive_days_back logged d = Suc (consecutive_days_back logged (d - 1))"
      by (subst consecutive_days_back.simps) simp
    show ?thesis
    proof (cases n)
      case 0
      with True e show ?thesis by simp
    next
      case (Suc j)
      have "consecutive_days_back logged (d - 1) = j \<longleftrightarrow>
        (\<forall>k < j. d - 1 - int k \<in> set logged) \<and> d - 1 - int j \<notin> set logged"
        using "1.IH" [OF True] by blast
      moreover have "(\<forall>k < Suc j. d - int k \<in> set logged) \<longleftrightarrow>
          (\<forall>k < j. d - 1 - int k \<in> set logged)"
      proof
        assume h: "\<forall>k < Suc j. d - int k \<in> set logged"
        show "\<forall>k < j. d - 1 - int k \<in> set logged"
        proof (intro allI impI)
          fix k assume "k < j"
          then have "d - int (Suc k) \<in> set logged" using h by blast
          then show "d - 1 - int k \<in> set logged" by (simp add: algebra_simps)
        qed
      next
        assume h: "\<forall>k < j. d - 1 - int k \<in> set logged"
        show "\<forall>k < Suc j. d - int k \<in> set logged"
        proof (intro allI impI)
          fix k assume k: "k < Suc j"
          show "d - int k \<in> set logged"
          proof (cases k)
            case 0
            with True show ?thesis by simp
          next
            case (Suc i)
            with k have "i < j" by simp
            then have "d - 1 - int i \<in> set logged" using h by blast
            then show ?thesis using Suc by (simp add: algebra_simps)
          qed
        qed
      qed
      moreover have "d - int (Suc j) = d - 1 - int j" by simp
      ultimately show ?thesis using e Suc by (simp add: diff_diff_eq)
    qed
  qed
qed

lemma most_recent_is_Max:
  assumes "logged \<noteq> []"
  shows "most_recent_logged_day logged = Some (Max (set logged))"
proof (cases logged)
  case Nil
  with assms show ?thesis by simp
next
  case (Cons a list)
  then show ?thesis
    using Max.set_eq_fold [of a list] by (simp add: most_recent_logged_day_def)
qed

lemma streak_pos:
  assumes "d \<in> set logged"
  shows "0 < consecutive_days_back logged d"
  using assms by (subst consecutive_days_back.simps) simp

text \<open>
  C1, as stated, fails: its two descriptions of the streak are not equivalent. With a
  single log on day 9 and today being day 10, the walk backward from today stops at once
  and counts 0, while the run of logged days ending at the most recent logged day counts
  1 and that day is not more than one day in the past.
\<close>

theorem streak_readings_differ_counterexample:
  "streak_walking_back_from_today [9] 10 = 0 \<and> current_streak [9] 10 = 1"
  by (simp add: streak_walking_back_from_today_def current_streak_def
      most_recent_logged_day_def consecutive_days_back.simps)

text \<open>
  C1 (amended). The current streak is 0 for the empty set. For a non-empty set it is 0
  exactly when the most recent logged day is more than one day before today, and
  otherwise it is the number of consecutive logged days ending at the most recent logged
  day, where the count from a day \<open>d\<close> is \<open>n\<close> exactly when the \<open>n\<close> days \<open>d, d - 1, ...\<close> are
  all logged and the next one is not. It equals the count of the walk backward from
  today when today is the most recent logged day, and when the most recent logged day is
  more than one day in the past. For logs on today, yesterday and the day before it
  is 3.
\<close>

theorem current_streak_rule:
  "current_streak [] today = 0 \<and>
   (logged \<noteq> [] \<longrightarrow>
      (current_streak logged today = 0 \<longleftrightarrow> today - Max (set logged) > 1) \<and>
      (today - Max (set logged) \<le> 1 \<longrightarrow>
         current_streak logged today = consecutive_days_back logged (Max (set logged)))) \<and>
   (consecutive_days_back logged d = n \<longleftrightarrow>
      (\<forall>k < n. d - int k \<in> set logged) \<and> d - int n \<notin> set logged) \<and>
   (logged \<noteq> [] \<and> Max (set logged) = today \<longrightarrow>
      current_streak logged today = streak_walking_back_from_today logged today) \<and>
   (logged \<noteq> [] \<and> today - Max (set logged) > 1 \<longrightarrow>
      current_streak logged today = streak_walking_back_from_today logged today) \<and>
   (set logged = {today, today - 1, today - 2} \<longrightarrow> current_streak logged today = 3)"
proof -
  have p1: "current_streak [] today = 0"
    by (simp add: current_streak_def most_recent_logged_day_def)
  have p2: "logged \<noteq> [] \<longrightarrow>
      (current_streak logged today = 0 \<longleftrightarrow> today - Max (set logged) > 1) \<and>
      (today - Max (set logged) \<le> 1 \<longrightarrow>
         current_streak logged today = consecutive_days_back logged (Max (set logged)))"
  proof
    assume ne: "logged \<noteq> []"
    then have "Max (set logged) \<in> set logged" by (intro Max_in) simp_all
    then have "0 < consecutive_days_back logged (Max (set logged))" by (rule streak_pos)
    then show "(current_streak logged today = 0 \<longleftrightarrow> today - Max (set logged) > 1) \<and>
      (today - Max (set logged) \<le> 1 \<longrightarrow>
         current_streak logged today = consecutive_days_back logged (Max (set logged)))"
      by (simp add: current_streak_def most_recent_is_Max [OF ne])
  qed
  have p3: "consecutive_days_back logged d = n \<longleftrightarrow>
      (\<forall>k < n. d - int k \<in> set logged) \<and> d - int n \<notin> set logged"
    by (rule consecutive_days_back_char)
  have p4: "logged \<noteq> [] \<and> Max (set logged) = today \<longrightarrow>
      current_streak logged today = streak_walking_back_from_today logged today"
    by (auto simp: current_streak_def most_recent_is_Max streak_walking_back_from_today_def)
  have p5: "logged \<noteq> [] \<and> today - Max (set logged) > 1 \<longrightarrow>
      current_streak logged today = streak_walking_back_from_today logged today"
  proof
    assume h: "logged \<noteq> [] \<and> today - Max (set logged) > 1"
    have "today \<notin> set logged"
    proof
      assume "today \<in> set logged"
      then have "today \<le> Max (set logged)" by (intro Max_ge) simp_all
      with h show False by linarith
    qed
    then have "consecutive_days_back logged today = 0"
      by (subst consecutive_days_back.simps) simp
    with h show "current_streak logged today = streak_walking_back_from_today logged today"
      by (simp add: current_streak_def most_recent_is_Max streak_walking_back_from_today_def)
  qed
  have p6: "set logged = {today, today - 1, today - 2} \<longrightarrow> current_streak logged today = 3"
  proof
    assume s: "set logged = {today, today - 1, today - 2}"
    then have ne: "logged \<noteq> []" by auto
    have mx: "Max (set logged) = today" by (simp add: s)
    have "(\<forall>k < 3. today - int k \<in> set logged) \<and> today - int 3 \<notin> set logged"
    proof (intro conjI allI impI)
      fix k :: nat assume "k < 3"
      then have "k = 0 \<or> k = 1 \<or> k = 2" by arith
      then show "today - int k \<in> set logged" using s by auto
    next
      show "today - int 3 \<notin> set logged" using s by simp
    qed
    then have "consecutive_days_back logged today = 3"
      using consecutive_days_back_char [of logged today 3] by blast
    then show "current_streak logged today = 3"
      by (simp add: current_streak_def most_recent_is_Max [OF ne] mx)
  qed
  show ?thesis
    by (rule conjI [OF p1 conjI [OF p2 conjI [OF p3 conjI [OF p4 conjI [OF p5 p6]]]]])
qed

text \<open>C1 (amended) at logs on days 10, 9, 8 with today = 10, and at logs on days 8 and 7.\<close>

theorem current_streak_rule_witness:
  "[10, 9, 8] \<noteq> ([] :: int list) \<and> set [10, 9, 8] = {10, 10 - 1, 10 - 2 :: int} \<and>
   current_streak [10, 9, 8] 10 = 3 \<and>
   streak_walking_back_from_today [10, 9, 8] 10 = 3 \<and>
   current_streak [10, 9, 7] 10 = 2 \<and>
   current_streak [8, 7] 10 = 0 \<and> streak_walking_back_from_today [8, 7] 10 = 0"
proof -
  have a: "set [10, 9, 8] = {10, 10 - 1, 10 - 2 :: int}" by simp
  have b: "current_streak [10, 9, 8] 10 = 3"
    using current_streak_rule [of 10 "[10, 9, 8]" 10 3] a by blast
  have mx: "Max (set [10, 9, 8 :: int]) = 10" "Max (set [8, 7 :: int]) = 8" by simp_all
  have c: "streak_walking_back_from_today [10, 9, 8] 10 = 3"
    using current_streak_rule [of 10 "[10, 9, 8]" 10 3] b mx by simp
  have d: "current_streak [10, 9, 7] 10 = 2"
    by (simp add: current_streak_def most_recent_logged_day_def consecutive_days_back.simps)
  have e: "current_streak [8, 7] 10 = 0 \<and> streak_walking_back_from_today [8, 7] 10 = 0"
    using current_streak_rule [of 10 "[8, 7]" 8 2] mx by simp
  show ?thesis using a b c d e by simp
qed

end
